theory Spec2Isabelle
  imports Complex_Main "HOL-Library.Multiset" "HOL-Library.Sublist"
begin

section \<open>The commit sampling and scoring pipeline of leaders-commit-ranking\<close>

text \<open>
  A shallow embedding of \<^verbatim>\<open>src/main.go\<close>: the sampler, the diff packager, the
  evaluation of the sampled commits and the aggregation and ranking of the scores.
  Go's \<^verbatim>\<open>int\<close> is modelled as \<^typ>\<open>int\<close> (the counts are lengths of slices, the
  scores are kept within 64 bits by the decoder), positions in slices as \<^typ>\<open>nat\<close>,
  Go strings as byte lists (\<^typ>\<open>string\<close>).
\<close>

subsection \<open>The sampler (step 3 of \<^verbatim>\<open>GetRepositoryCommitAnalysisData\<close>)\<close>

text \<open>
  \<^verbatim>\<open>crypto/rand.Reader\<close> is an entropy source: \<open>rd t\<close> is the raw value of
  draw number \<open>t\<close>. \<^verbatim>\<open>rand.Int(rand.Reader, max)\<close> returns a value of
  \<open>[0, max)\<close>; under Go 1.24 (the version of \<^verbatim>\<open>go.mod\<close>) reading the source
  does not fail, so the error that the code discards never occurs.
\<close>

type_synonym reader = "nat \<Rightarrow> nat"

definition rand_Int :: "reader \<Rightarrow> nat \<Rightarrow> nat \<Rightarrow> nat" where
  "rand_Int rd t maxv = rd t mod maxv"

text \<open>
  \<^verbatim>\<open>for i := len(indices) - 1; i > 0; i-- { j := rand [0, i]; swap i j }\<close>:
  the loop counter is the third argument, the number of draws made so far the second.
\<close>

fun shuffle_loop :: "reader \<Rightarrow> nat \<Rightarrow> nat \<Rightarrow> nat list \<Rightarrow> nat list" where
  "shuffle_loop rd t 0 indices = indices"
| "shuffle_loop rd t (Suc m) indices =
     (let i = Suc m;
          j = rand_Int rd t (i + 1)
      in shuffle_loop rd (Suc t) m (indices[i := indices ! j, j := indices ! i]))"

definition shuffled_indices :: "reader \<Rightarrow> nat \<Rightarrow> nat list" where
  "shuffled_indices rd n = shuffle_loop rd 0 (n - 1) [0..<n]"

definition select_random_SHAs :: "reader \<Rightarrow> string list \<Rightarrow> int \<Rightarrow> string list" where
  "select_random_SHAs rd allCommitSHAs numRandomCommitsToAnalyze =
     (let numToSelect =
            (if int (length allCommitSHAs) < numRandomCommitsToAnalyze
             then int (length allCommitSHAs) else numRandomCommitsToAnalyze);
          indices = shuffled_indices rd (length allCommitSHAs)
      in map (\<lambda>i. allCommitSHAs ! (indices ! i)) [0..<nat numToSelect])"

subsection \<open>The diff packager (step 4 of \<^verbatim>\<open>GetRepositoryCommitAnalysisData\<close>)\<close>

text \<open>The go-github values that the pipeline reads; a \<^verbatim>\<open>nil\<close> pointer is \<open>None\<close>.\<close>

record CommitFile =
  Patch :: "string option"

record Commit =
  c_Message :: "string option"

record RepositoryCommit =
  rc_SHA :: "string option"
  rc_Commit :: "Commit option"
  rc_Files :: "CommitFile list"

record CommitInfo =
  SHA :: string
  Message :: string
  Diff :: string

definition GetPatch :: "CommitFile \<Rightarrow> string" where
  "GetPatch f = (case Patch f of None \<Rightarrow> [] | Some p \<Rightarrow> p)"

definition nl :: char where
  "nl = CHR 0x0A"

text \<open>\<^verbatim>\<open>strings.Split(s, "\n")\<close>: the pieces between the newlines, one more than there
  are newlines (the empty string has the one piece \<open>[]\<close>).\<close>

fun split_lines :: "string \<Rightarrow> string list" where
  "split_lines [] = [[]]"
| "split_lines (c # cs) =
     (if c = nl then [] # split_lines cs
      else (case split_lines cs of
              [] \<Rightarrow> [[c]]
            | l # ls \<Rightarrow> (c # l) # ls))"

text \<open>
  The \<^verbatim>\<open>strings.Builder\<close> is modelled by the list of the writes made to it, each
  tagged with the statement of the source that made it; \<^verbatim>\<open>String()\<close> concatenates
  the written text.
\<close>

datatype chunk =
    Line string           \<comment> \<open>\<^verbatim>\<open>WriteString(line); WriteString("\n")\<close>\<close>
  | Separator             \<comment> \<open>\<^verbatim>\<open>WriteString("---\n")\<close>\<close>
  | Truncated             \<comment> \<open>\<^verbatim>\<open>WriteString("\n... (diff truncated due to line limit)\n")\<close>\<close>
  | WholePatch string     \<comment> \<open>\<^verbatim>\<open>WriteString(file.GetPatch())\<close>\<close>
  | PatchSeparator        \<comment> \<open>\<^verbatim>\<open>WriteString("\n---\n")\<close>\<close>

definition truncation_marker :: string where
  "truncation_marker = nl # ''... (diff truncated due to line limit)'' @ [nl]"

definition patch_separator :: string where
  "patch_separator = nl # ''---'' @ [nl]"

fun chunk_text :: "chunk \<Rightarrow> string" where
  "chunk_text (Line l) = l @ [nl]"
| "chunk_text Separator = ''---'' @ [nl]"
| "chunk_text Truncated = truncation_marker"
| "chunk_text (WholePatch p) = p"
| "chunk_text PatchSeparator = patch_separator"

definition Builder_String :: "chunk list \<Rightarrow> string" where
  "Builder_String b = concat (map chunk_text b)"

definition TrimSuffix :: "string \<Rightarrow> string \<Rightarrow> string" where
  "TrimSuffix s suf = (if suffix suf s then take (length s - length suf) s else s)"

text \<open>
  The loop over the lines of one patch. The state is the builder and
  \<^verbatim>\<open>currentLines\<close>; the flag says that the loop left by
  \<^verbatim>\<open>goto EndDiffProcessing\<close>.
\<close>

fun write_lines :: "int \<Rightarrow> string list \<Rightarrow> chunk list \<times> nat \<Rightarrow> (chunk list \<times> nat) \<times> bool" where
  "write_lines diffLinesLimit [] (b, currentLines) = ((b, currentLines), False)"
| "write_lines diffLinesLimit (line # patchLines) (b, currentLines) =
     (if diffLinesLimit \<le> int currentLines then ((b @ [Truncated], currentLines), True)
      else write_lines diffLinesLimit patchLines (b @ [Line line], Suc currentLines))"

text \<open>The loop over \<^verbatim>\<open>commit.Files\<close>.\<close>

fun write_files :: "int \<Rightarrow> CommitFile list \<Rightarrow> chunk list \<times> nat \<Rightarrow> chunk list" where
  "write_files diffLinesLimit [] (b, currentLines) = b"
| "write_files diffLinesLimit (file # files) (b, currentLines) =
     (if GetPatch file \<noteq> [] then
        (if 0 < diffLinesLimit then
           (case write_lines diffLinesLimit (split_lines (GetPatch file)) (b, currentLines) of
              ((b', currentLines'), True) \<Rightarrow> b'
            | ((b', currentLines'), False) \<Rightarrow>
                write_files diffLinesLimit files
                  (if int currentLines' < diffLinesLimit then b' @ [Separator] else b', currentLines'))
         else write_files diffLinesLimit files
                (b @ [WholePatch (GetPatch file), PatchSeparator], currentLines))
      else write_files diffLinesLimit files (b, currentLines))"

definition diff_chunks :: "int \<Rightarrow> CommitFile list \<Rightarrow> chunk list" where
  "diff_chunks diffLinesLimit files = write_files diffLinesLimit files ([], 0)"

definition diff_snippet :: "int \<Rightarrow> CommitFile list \<Rightarrow> string" where
  "diff_snippet diffLinesLimit files =
     TrimSuffix (Builder_String (diff_chunks diffLinesLimit files)) patch_separator"

definition commit_message :: "RepositoryCommit \<Rightarrow> string" where
  "commit_message commit =
     (case rc_Commit commit of
        None \<Rightarrow> []
      | Some c \<Rightarrow> (case c_Message c of None \<Rightarrow> [] | Some m \<Rightarrow> m))"

definition package_commit :: "int \<Rightarrow> string \<Rightarrow> RepositoryCommit \<Rightarrow> CommitInfo" where
  "package_commit diffLinesLimit sha commit =
     \<lparr>SHA = sha, Message = commit_message commit,
      Diff = diff_snippet diffLinesLimit (rc_Files commit)\<rparr>"

text \<open>
  The calls to the collaborators are recorded in a trace.
\<close>

datatype event =
    EvGetCommit string        \<comment> \<open>\<^verbatim>\<open>Repositories.GetCommit\<close> for a SHA\<close>
  | EvGenerateContent string  \<comment> \<open>\<^verbatim>\<open>GenerateContent\<close> for a repository\<close>

text \<open>
  \<^verbatim>\<open>for _, sha := range finalSelectedSHAs\<close>: a commit whose detail cannot be fetched
  is skipped (\<^verbatim>\<open>continue\<close>), the others are appended to
  \<^verbatim>\<open>analyzedCommits\<close> in the order of the selection. \<open>getCommit sha\<close> is the answer of
  \<^verbatim>\<open>Repositories.GetCommit\<close>, \<open>Inl\<close> its error.
\<close>

fun fetch_details ::
  "(string \<Rightarrow> string + RepositoryCommit) \<Rightarrow> int \<Rightarrow> string list \<Rightarrow> CommitInfo list \<times> event list" where
  "fetch_details getCommit diffLinesLimit [] = ([], [])"
| "fetch_details getCommit diffLinesLimit (sha # shas) =
     (let (analyzed, trace) = fetch_details getCommit diffLinesLimit shas
      in case getCommit sha of
           Inl getErr \<Rightarrow> (analyzed, EvGetCommit sha # trace)
         | Inr commit \<Rightarrow> (package_commit diffLinesLimit sha commit # analyzed, EvGetCommit sha # trace))"

text \<open>
  The lines of a commit: the pieces of the patches that the loops visit, in order (a
  file without patch text is passed over).
\<close>

definition patch_lines :: "CommitFile list \<Rightarrow> string list" where
  "patch_lines files =
     concat (map (\<lambda>f. split_lines (GetPatch f)) (filter (\<lambda>f. GetPatch f \<noteq> []) files))"

text \<open>The patches, with \<^verbatim>\<open>"\n---\n"\<close> between one and the next.\<close>

fun join_patches :: "string list \<Rightarrow> string" where
  "join_patches [] = []"
| "join_patches [p] = p"
| "join_patches (p # q # ps) = p @ patch_separator @ join_patches (q # ps)"

text \<open>A commit of three files, the second without patch text.\<close>

definition ex_commit :: RepositoryCommit where
  "ex_commit =
     \<lparr>rc_SHA = Some ''s1'', rc_Commit = Some \<lparr>c_Message = Some ''fix''\<rparr>,
      rc_Files = [\<lparr>Patch = Some ''a\<newline>b''\<rparr>, \<lparr>Patch = None\<rparr>,
                  \<lparr>Patch = Some ''c\<newline>d\<newline>e''\<rparr>]\<rparr>"

subsection \<open>\<^verbatim>\<open>float64\<close> arithmetic\<close>

text \<open>
  A finite \<^verbatim>\<open>float64\<close> is modelled by the real number it denotes. Every conversion
  and every arithmetic operation of the source rounds its exact result to the nearest
  binary64 value, ties to even (\<open>f64\<close>). Each operation rounds on its own: the
  evaluation without fused multiply-add, which the language leaves to the implementation.
  A binary64 value is an integer multiple of its quantum \<open>2^e\<close> with a significand of
  at most 53 bits and \<open>-1074 \<le> e \<le> 971\<close>. The operands of the pipeline are integers
  of 64 bits and the weights, far from the overflow threshold \<open>2^1024\<close>, so infinities
  and NaN do not arise.
\<close>

type_synonym float64 = real

definition round_half_even :: "real \<Rightarrow> int" where
  "round_half_even x =
     (let n = \<lfloor>x\<rfloor>; d = x - of_int n
      in if d < 1/2 then n else if 1/2 < d then n + 1 else if even n then n else n + 1)"

text \<open>The quantum of the binade of \<open>a\<close>: \<open>a\<close> is scaled into \<open>[2^52, 2^53)\<close>, where
  the quantum is 1. The first argument bounds the exponent range.\<close>

fun quantum_up :: "nat \<Rightarrow> real \<Rightarrow> real \<Rightarrow> real" where
  "quantum_up 0 a q = q"
| "quantum_up (Suc n) a q = (if a < 2^52 then quantum_up n (2 * a) (q / 2) else q)"

fun quantum_down :: "nat \<Rightarrow> real \<Rightarrow> real \<Rightarrow> real" where
  "quantum_down 0 a q = q"
| "quantum_down (Suc n) a q = (if 2^53 \<le> a then quantum_down n (a / 2) (2 * q) else q)"

definition f64_quantum :: "real \<Rightarrow> real" where
  "f64_quantum x =
     (if 2^53 \<le> \<bar>x\<bar> then quantum_down 971 \<bar>x\<bar> 1 else quantum_up 1074 \<bar>x\<bar> 1)"

definition f64 :: "real \<Rightarrow> float64" where
  "f64 x = of_int (round_half_even (x / f64_quantum x)) * f64_quantum x"

definition f64_add :: "float64 \<Rightarrow> float64 \<Rightarrow> float64" where
  "f64_add a b = f64 (a + b)"

definition f64_mul :: "float64 \<Rightarrow> float64 \<Rightarrow> float64" where
  "f64_mul a b = f64 (a * b)"

definition f64_div :: "float64 \<Rightarrow> float64 \<Rightarrow> float64" where
  "f64_div a b = f64 (a / b)"

subsection \<open>The score aggregation of \<^verbatim>\<open>main\<close>\<close>

record GeminiScore =
  TechnicalSophistication :: int
  MessageAppropriateness :: int

record RepoScore =
  Name :: string
  CommitCount :: int
  TechnicalScore :: int
  MessageScore :: int
  OverallScore :: float64
  AnalyzedCommitsCount :: int
  SampledCommits :: "CommitInfo list"

definition numRandomCommitsToAnalyze :: int where
  "numRandomCommitsToAnalyze = 5"

definition diffLinesLimit :: int where
  "diffLinesLimit = 100"

text \<open>The weights are untyped constants of the source: exact decimals, rounded where
  they meet a \<^verbatim>\<open>float64\<close> operand.\<close>

definition commitCountWeight :: real where
  "commitCountWeight = 2 / 10"

definition technicalScoreWeight :: real where
  "technicalScoreWeight = 4 / 10"

definition messageScoreWeight :: real where
  "messageScoreWeight = 4 / 10"

definition maxCommitCountForNorm :: int where
  "maxCommitCountForNorm = 1000"

definition commit_score :: "int \<Rightarrow> float64" where
  "commit_score totalRepoCommits =
     (let normalizedCommitCount = f64 (of_int totalRepoCommits);
          normalizedCommitCount =
            (if normalizedCommitCount > f64 (of_int maxCommitCountForNorm)
             then f64 (of_int maxCommitCountForNorm) else normalizedCommitCount)
      in f64_mul (f64_div normalizedCommitCount (f64 (of_int maxCommitCountForNorm))) (f64 10))"

definition overall_score :: "int \<Rightarrow> GeminiScore \<Rightarrow> float64" where
  "overall_score totalRepoCommits geminiEval =
     f64_add
       (f64_add
          (f64_mul (commit_score totalRepoCommits) (f64 commitCountWeight))
          (f64_mul (f64 (of_int (TechnicalSophistication geminiEval))) (f64 technicalScoreWeight)))
       (f64_mul (f64 (of_int (MessageAppropriateness geminiEval))) (f64 messageScoreWeight))"

subsection \<open>The ranking\<close>

text \<open>
  \<^verbatim>\<open>sort.SliceStable(repoScores, less)\<close>, as the stable insertion sort of the
  library: the elements are taken from left to right, and each is moved towards the
  front past the elements that it is less than (\<open>lt\<close>), up to the first that it is not.
  The sorted prefix is kept with its last element first. (The library sorts blocks of 20
  elements this way and merges them stably; the result of a stable sort by the
  comparison of \<^verbatim>\<open>main\<close> is unique, see \<open>stable_descending_unique\<close>.)
\<close>

fun insert_back :: "('a \<Rightarrow> 'a \<Rightarrow> bool) \<Rightarrow> 'a \<Rightarrow> 'a list \<Rightarrow> 'a list" where
  "insert_back lt x [] = [x]"
| "insert_back lt x (y # ys) =
     (if lt x y then y # insert_back lt x ys else x # y # ys)"

definition SliceStable :: "('a \<Rightarrow> 'a \<Rightarrow> bool) \<Rightarrow> 'a list \<Rightarrow> 'a list" where
  "SliceStable lt xs = rev (foldl (\<lambda>sorted x. insert_back lt x sorted) [] xs)"

text \<open>\<^verbatim>\<open>func(i, j int) bool { return repoScores[i].OverallScore > repoScores[j].OverallScore }\<close>\<close>

definition less_OverallScore :: "RepoScore \<Rightarrow> RepoScore \<Rightarrow> bool" where
  "less_OverallScore a b = (OverallScore a > OverallScore b)"

definition rank_repoScores :: "RepoScore list \<Rightarrow> RepoScore list" where
  "rank_repoScores repoScores = SliceStable less_OverallScore repoScores"

subsection \<open>The evaluator's answer (\<^verbatim>\<open>AnalyzeCommitsWithGemini\<close>)\<close>

text \<open>The answer of \<^verbatim>\<open>GenerateContent\<close>: an error, or candidates with their parts.\<close>

datatype part = Text string | OtherPart

record genai_Content =
  Parts :: "part list"

record genai_Candidate =
  Content :: "genai_Content option"

type_synonym gen_response = "string + genai_Candidate list"

definition dq :: char where
  "dq = CHR 0x22"

definition backslash :: char where
  "backslash = CHR 0x5C"

text \<open>
  \<^verbatim>\<open>strings.TrimSpace\<close> removes the white space of Unicode at both ends: the six
  ASCII characters, and NEL, NBSP, U+1680, U+2000 to U+200A, U+2028, U+2029, U+202F,
  U+205F and U+3000 in their UTF-8 encodings.
\<close>

definition is_ascii_space :: "char \<Rightarrow> bool" where
  "is_ascii_space c = (c \<in> {CHR 0x09, CHR 0x0A, CHR 0x0B, CHR 0x0C, CHR 0x0D, CHR 0x20})"

definition unicode_spaces :: "string list" where
  "unicode_spaces =
     [[CHR 0xC2, CHR 0x85], [CHR 0xC2, CHR 0xA0], [CHR 0xE1, CHR 0x9A, CHR 0x80],
      [CHR 0xE2, CHR 0x80, CHR 0x80], [CHR 0xE2, CHR 0x80, CHR 0x81],
      [CHR 0xE2, CHR 0x80, CHR 0x82], [CHR 0xE2, CHR 0x80, CHR 0x83],
      [CHR 0xE2, CHR 0x80, CHR 0x84], [CHR 0xE2, CHR 0x80, CHR 0x85],
      [CHR 0xE2, CHR 0x80, CHR 0x86], [CHR 0xE2, CHR 0x80, CHR 0x87],
      [CHR 0xE2, CHR 0x80, CHR 0x88], [CHR 0xE2, CHR 0x80, CHR 0x89],
      [CHR 0xE2, CHR 0x80, CHR 0x8A], [CHR 0xE2, CHR 0x80, CHR 0xA8],
      [CHR 0xE2, CHR 0x80, CHR 0xA9], [CHR 0xE2, CHR 0x80, CHR 0xAF],
      [CHR 0xE2, CHR 0x81, CHR 0x9F], [CHR 0xE3, CHR 0x80, CHR 0x80]]"

text \<open>The number of bytes of the white space rune at the front (at the end) of a
  string; 0 when there is none.\<close>

definition space_width_front :: "string \<Rightarrow> nat" where
  "space_width_front s =
     (case s of
        [] \<Rightarrow> 0
      | c # cs \<Rightarrow>
          if is_ascii_space c then 1
          else (case find (\<lambda>enc. prefix enc s) unicode_spaces of
                  None \<Rightarrow> 0
                | Some enc \<Rightarrow> length enc))"

definition space_width_back :: "string \<Rightarrow> nat" where
  "space_width_back s =
     (if s = [] then 0
      else if is_ascii_space (last s) then 1
      else (case find (\<lambda>enc. suffix enc s) unicode_spaces of
              None \<Rightarrow> 0
            | Some enc \<Rightarrow> length enc))"

function TrimLeft :: "string \<Rightarrow> string" where
  "TrimLeft s =
     (if space_width_front s = 0 \<or> s = [] then s else TrimLeft (drop (space_width_front s) s))"
  by pat_completeness auto
termination
  by (relation "measure length") auto

function TrimRight :: "string \<Rightarrow> string" where
  "TrimRight s =
     (if space_width_back s = 0 \<or> s = [] then s
      else TrimRight (take (length s - space_width_back s) s))"
  by pat_completeness auto
termination
  by (relation "measure length") auto

declare TrimLeft.simps [simp del] TrimRight.simps [simp del]

definition TrimSpace :: "string \<Rightarrow> string" where
  "TrimSpace s = TrimRight (TrimLeft s)"

text \<open>The text before and after the first occurrence of \<open>pat\<close>.\<close>

fun split_at_first :: "string \<Rightarrow> string \<Rightarrow> (string \<times> string) option" where
  "split_at_first pat [] = (if pat = [] then Some ([], []) else None)"
| "split_at_first pat (c # cs) =
     (if prefix pat (c # cs) then Some ([], drop (length pat) (c # cs))
      else map_option (\<lambda>(before, after). (c # before, after)) (split_at_first pat cs))"

text \<open>
  The first submatch of \<^verbatim>\<open>(?s)```json\n(.*?)\n```\<close>: the match starts at the first
  opening fence, and the lazy group ends at the first closing fence after it.
\<close>

definition fence_open :: string where
  "fence_open = ''```json'' @ [nl]"

definition fence_close :: string where
  "fence_close = nl # ''```''"

definition find_markdown_json :: "string \<Rightarrow> string option" where
  "find_markdown_json s =
     (case split_at_first fence_open s of
        None \<Rightarrow> None
      | Some (before, rest) \<Rightarrow>
          (case split_at_first fence_close rest of
             None \<Rightarrow> None
           | Some (captured, after) \<Rightarrow> Some captured))"

text \<open>
  The leftmost match of
  \<^verbatim>\<open>(?s)\s*\{\s*("technical_sophistication"|"message_appropriateness")[\s\S]*?\}\s*\<close>,
  without the white space that \<^verbatim>\<open>\s*\<close> matches before the opening and after the
  closing brace (\<^verbatim>\<open>TrimSpace\<close> removes it from the match): from the first brace
  that is followed by white space and one of the two quoted names, to the first closing
  brace after the name. \<^verbatim>\<open>\s\<close> is \<^verbatim>\<open>[\t\n\f\r ]\<close>.
\<close>

definition is_regexp_space :: "char \<Rightarrow> bool" where
  "is_regexp_space c = (c \<in> {CHR 0x09, CHR 0x0A, CHR 0x0C, CHR 0x0D, CHR 0x20})"

definition key_technical :: string where
  "key_technical = dq # ''technical_sophistication'' @ [dq]"

definition key_message :: string where
  "key_message = dq # ''message_appropriateness'' @ [dq]"

definition match_plain_json_at :: "string \<Rightarrow> string option" where
  "match_plain_json_at cs =
     (let ws = takeWhile is_regexp_space cs;
          rest = dropWhile is_regexp_space cs;
          key = (if prefix key_technical rest then Some key_technical
                 else if prefix key_message rest then Some key_message else None)
      in case key of
           None \<Rightarrow> None
         | Some k \<Rightarrow>
             (case split_at_first ''}'' (drop (length k) rest) of
                None \<Rightarrow> None
              | Some (mid, after) \<Rightarrow> Some (ws @ k @ mid @ ''}'')))"

fun find_plain_json :: "string \<Rightarrow> string option" where
  "find_plain_json [] = None"
| "find_plain_json (c # cs) =
     (if c = CHR ''{'' then
        (case match_plain_json_at cs of
           Some body \<Rightarrow> Some (c # body)
         | None \<Rightarrow> find_plain_json cs)
      else find_plain_json cs)"

definition extract_json :: "string \<Rightarrow> string option" where
  "extract_json jsonResponse =
     (case find_markdown_json jsonResponse of
        Some captured \<Rightarrow> Some (TrimSpace captured)
      | None \<Rightarrow>
          (case find_plain_json jsonResponse of
             Some foundJSON \<Rightarrow> Some (TrimSpace foundJSON)
           | None \<Rightarrow> None))"

subsection \<open>\<^verbatim>\<open>json.Unmarshal\<close> into a \<^verbatim>\<open>GeminiScore\<close>\<close>

text \<open>
  The decoder of the standard library (\<^verbatim>\<open>encoding/json\<close>), as its documentation
  and RFC 8259 describe it: the input is one JSON value with white space around it; an
  object sets the fields that its keys name, a key matching a field name exactly or
  under case folding; keys that name no field are skipped; \<^verbatim>\<open>null\<close> sets nothing;
  a number is stored into an \<^verbatim>\<open>int\<close> field when \<^verbatim>\<open>strconv.ParseInt\<close> accepts its
  literal; every other value for a field, and every value other than an object or
  \<^verbatim>\<open>null\<close> for the record, is an \<^verbatim>\<open>UnmarshalTypeError\<close>. A field that no key
  names keeps the value it had: 0, as the record starts zeroed.
\<close>

datatype json =
    JNull
  | JBool bool
  | JNumber string
  | JString string
  | JArray "json list"
  | JObject "(string \<times> json) list"

datatype json_error = SyntaxError | UnmarshalTypeError

definition is_json_space :: "char \<Rightarrow> bool" where
  "is_json_space c = (c \<in> {CHR 0x20, CHR 0x09, CHR 0x0D, CHR 0x0A})"

definition skip_ws :: "string \<Rightarrow> string" where
  "skip_ws s = dropWhile is_json_space s"

definition is_digit :: "char \<Rightarrow> bool" where
  "is_digit c = (48 \<le> (of_char c :: nat) \<and> (of_char c :: nat) \<le> 57)"

definition digit_val :: "char \<Rightarrow> int" where
  "digit_val c = of_char c - 48"

text \<open>A number literal: \<^verbatim>\<open>-?(0|[1-9][0-9]*)(\.[0-9]+)?([eE][+-]?[0-9]+)?\<close>.\<close>

definition scan_int_part :: "string \<Rightarrow> (string \<times> string) option" where
  "scan_int_part s =
     (case s of
        [] \<Rightarrow> None
      | c # cs \<Rightarrow>
          if c = CHR ''0'' then Some ([c], cs)
          else if is_digit c then Some (takeWhile is_digit s, dropWhile is_digit s)
          else None)"

definition scan_frac_part :: "string \<Rightarrow> (string \<times> string) option" where
  "scan_frac_part s =
     (case s of
        [] \<Rightarrow> Some ([], s)
      | c # cs \<Rightarrow>
          if c = CHR ''.'' then
            (if takeWhile is_digit cs = [] then None
             else Some (c # takeWhile is_digit cs, dropWhile is_digit cs))
          else Some ([], s))"

definition scan_exp_part :: "string \<Rightarrow> (string \<times> string) option" where
  "scan_exp_part s =
     (case s of
        [] \<Rightarrow> Some ([], s)
      | c # cs \<Rightarrow>
          if c = CHR ''e'' \<or> c = CHR ''E'' then
            (let sign = (case cs of
                           [] \<Rightarrow> []
                         | d # ds \<Rightarrow> if d = CHR ''+'' \<or> d = CHR ''-'' then [d] else []);
                 ds = drop (length sign) cs
             in if takeWhile is_digit ds = [] then None
                else Some (c # sign @ takeWhile is_digit ds, dropWhile is_digit ds))
          else Some ([], s))"

definition scan_number :: "string \<Rightarrow> (string \<times> string) option" where
  "scan_number s =
     (let sign = (case s of [] \<Rightarrow> [] | c # cs \<Rightarrow> if c = CHR ''-'' then [c] else [])
      in case scan_int_part (drop (length sign) s) of
           None \<Rightarrow> None
         | Some (ip, s1) \<Rightarrow>
             (case scan_frac_part s1 of
                None \<Rightarrow> None
              | Some (fp, s2) \<Rightarrow>
                  (case scan_exp_part s2 of
                     None \<Rightarrow> None
                   | Some (ep, s3) \<Rightarrow> Some (sign @ ip @ fp @ ep, s3))))"

text \<open>
  A string literal after its opening quote, decoded. The decoded text is compared
  with the two field names only, so a surrogate escape is decoded to U+FFFD without
  pairing it, and bytes that are not UTF-8 are kept as they are: neither is part of a
  key that names a field.
\<close>

definition hex_val :: "char \<Rightarrow> nat option" where
  "hex_val c =
     (let n = (of_char c :: nat)
      in if 48 \<le> n \<and> n \<le> 57 then Some (n - 48)
         else if 97 \<le> n \<and> n \<le> 102 then Some (n - 87)
         else if 65 \<le> n \<and> n \<le> 70 then Some (n - 55)
         else None)"

definition hex4 :: "char \<Rightarrow> char \<Rightarrow> char \<Rightarrow> char \<Rightarrow> nat option" where
  "hex4 h1 h2 h3 h4 =
     (case (hex_val h1, hex_val h2, hex_val h3, hex_val h4) of
        (Some a, Some b, Some c, Some d) \<Rightarrow> Some (4096 * a + 256 * b + 16 * c + d)
      | _ \<Rightarrow> None)"

definition utf8_encode :: "nat \<Rightarrow> string" where
  "utf8_encode cp =
     (if cp < 128 then [char_of cp]
      else if cp < 2048 then [char_of (192 + cp div 64), char_of (128 + cp mod 64)]
      else if 55296 \<le> cp \<and> cp < 57344 then [CHR 0xEF, CHR 0xBF, CHR 0xBD]
      else [char_of (224 + cp div 4096), char_of (128 + (cp div 64) mod 64),
            char_of (128 + cp mod 64)])"

definition unescape :: "char \<Rightarrow> char option" where
  "unescape e =
     (if e = dq \<or> e = backslash \<or> e = CHR ''/'' then Some e
      else if e = CHR ''b'' then Some (CHR 0x08)
      else if e = CHR ''f'' then Some (CHR 0x0C)
      else if e = CHR ''n'' then Some (CHR 0x0A)
      else if e = CHR ''r'' then Some (CHR 0x0D)
      else if e = CHR ''t'' then Some (CHR 0x09)
      else None)"

fun scan_string :: "string \<Rightarrow> (string \<times> string) option" where
  "scan_string [] = None"
| "scan_string (c # cs) =
     (if c = dq then Some ([], cs)
      else if c = backslash then
        (case cs of
           [] \<Rightarrow> None
         | e # cs1 \<Rightarrow>
             if e = CHR ''u'' then
               (case cs1 of
                  h1 # h2 # h3 # h4 # cs2 \<Rightarrow>
                    (case hex4 h1 h2 h3 h4 of
                       None \<Rightarrow> None
                     | Some cp \<Rightarrow>
                         map_option (\<lambda>(str, r). (utf8_encode cp @ str, r)) (scan_string cs2))
                | _ \<Rightarrow> None)
             else
               (case unescape e of
                  None \<Rightarrow> None
                | Some ch \<Rightarrow> map_option (\<lambda>(str, r). (ch # str, r)) (scan_string cs1)))
      else if (of_char c :: nat) < 32 then None
      else map_option (\<lambda>(str, r). (c # str, r)) (scan_string cs))"

definition maxNestingDepth :: nat where
  "maxNestingDepth = 10000"

text \<open>
  The recursive descent. The first argument bounds the number of calls (\<open>parse_json\<close>
  gives two for every byte and two more, which no input uses up), the second is the
  number of arrays and objects that are open.
\<close>

fun parse_value :: "nat \<Rightarrow> nat \<Rightarrow> string \<Rightarrow> (json \<times> string) option"
  and parse_elements :: "nat \<Rightarrow> nat \<Rightarrow> string \<Rightarrow> (json list \<times> string) option"
  and parse_members :: "nat \<Rightarrow> nat \<Rightarrow> string \<Rightarrow> ((string \<times> json) list \<times> string) option"
where
  "parse_value 0 depth s = None"
| "parse_value (Suc n) depth s =
     (case s of
        [] \<Rightarrow> None
      | c # cs \<Rightarrow>
          if c = CHR ''{'' then
            (if maxNestingDepth \<le> depth then None
             else (case skip_ws cs of
                     [] \<Rightarrow> None
                   | c' # cs' \<Rightarrow>
                       if c' = CHR ''}'' then Some (JObject [], cs')
                       else map_option (\<lambda>(ms, r). (JObject ms, r))
                              (parse_members n (Suc depth) (c' # cs'))))
          else if c = CHR ''['' then
            (if maxNestingDepth \<le> depth then None
             else (case skip_ws cs of
                     [] \<Rightarrow> None
                   | c' # cs' \<Rightarrow>
                       if c' = CHR '']'' then Some (JArray [], cs')
                       else map_option (\<lambda>(vs, r). (JArray vs, r))
                              (parse_elements n (Suc depth) (c' # cs'))))
          else if c = dq then map_option (\<lambda>(str, r). (JString str, r)) (scan_string cs)
          else if c = CHR ''-'' \<or> is_digit c then
            map_option (\<lambda>(lit, r). (JNumber lit, r)) (scan_number s)
          else if prefix ''true'' s then Some (JBool True, drop 4 s)
          else if prefix ''false'' s then Some (JBool False, drop 5 s)
          else if prefix ''null'' s then Some (JNull, drop 4 s)
          else None)"
| "parse_elements 0 depth s = None"
| "parse_elements (Suc n) depth s =
     (case parse_value n depth s of
        None \<Rightarrow> None
      | Some (v, r) \<Rightarrow>
          (case skip_ws r of
             [] \<Rightarrow> None
           | c # cs \<Rightarrow>
               if c = CHR '','' then
                 map_option (\<lambda>(vs, r'). (v # vs, r')) (parse_elements n depth (skip_ws cs))
               else if c = CHR '']'' then Some ([v], cs)
               else None))"
| "parse_members 0 depth s = None"
| "parse_members (Suc n) depth s =
     (case s of
        [] \<Rightarrow> None
      | c # cs \<Rightarrow>
          if c \<noteq> dq then None
          else
            (case scan_string cs of
               None \<Rightarrow> None
             | Some (key, r) \<Rightarrow>
                 (case skip_ws r of
                    [] \<Rightarrow> None
                  | c1 # r1 \<Rightarrow>
                      if c1 \<noteq> CHR '':'' then None
                      else
                        (case parse_value n depth (skip_ws r1) of
                           None \<Rightarrow> None
                         | Some (v, r2) \<Rightarrow>
                             (case skip_ws r2 of
                                [] \<Rightarrow> None
                              | c2 # r3 \<Rightarrow>
                                  if c2 = CHR '','' then
                                    map_option (\<lambda>(ms, r'). ((key, v) # ms, r'))
                                      (parse_members n depth (skip_ws r3))
                                  else if c2 = CHR ''}'' then Some ([(key, v)], r3)
                                  else None)))))"

definition parse_json :: "string \<Rightarrow> json option" where
  "parse_json s =
     (case parse_value (2 * length s + 2) 0 (skip_ws s) of
        None \<Rightarrow> None
      | Some (v, r) \<Rightarrow> if skip_ws r = [] then Some v else None)"

text \<open>
  Case folding of a key: an ASCII letter to its capital, and the two runes that
  Unicode folds to ASCII letters: U+017F (long s) to \<open>S\<close>, U+212A (Kelvin sign) to
  \<open>K\<close>.
\<close>

definition fold_char :: "char \<Rightarrow> char" where
  "fold_char c =
     (if 97 \<le> (of_char c :: nat) \<and> (of_char c :: nat) \<le> 122
      then char_of ((of_char c :: nat) - 32) else c)"

fun fold_key :: "string \<Rightarrow> string" where
  "fold_key (c1 # c2 # c3 # cs) =
     (if [c1, c2, c3] = [CHR 0xE2, CHR 0x84, CHR 0xAA] then CHR ''K'' # fold_key cs
      else if [c1, c2] = [CHR 0xC5, CHR 0xBF] then CHR ''S'' # fold_key (c3 # cs)
      else fold_char c1 # fold_key (c2 # c3 # cs))"
| "fold_key [c1, c2] =
     (if [c1, c2] = [CHR 0xC5, CHR 0xBF] then ''S'' else [fold_char c1, fold_char c2])"
| "fold_key [c1] = [fold_char c1]"
| "fold_key [] = []"

datatype score_field = Field_TechnicalSophistication | Field_MessageAppropriateness

definition field_of_key :: "string \<Rightarrow> score_field option" where
  "field_of_key k =
     (if fold_key k = fold_key ''technical_sophistication'' then Some Field_TechnicalSophistication
      else if fold_key k = fold_key ''message_appropriateness'' then Some Field_MessageAppropriateness
      else None)"

text \<open>\<^verbatim>\<open>strconv.ParseInt(literal, 10, 64)\<close> on a number literal of JSON.\<close>

definition digits_val :: "string \<Rightarrow> int" where
  "digits_val ds = foldl (\<lambda>a c. 10 * a + digit_val c) 0 ds"

definition parse_int64 :: "string \<Rightarrow> int option" where
  "parse_int64 lit =
     (let neg = (lit \<noteq> [] \<and> hd lit = CHR ''-'');
          ds = (if neg then tl lit else lit);
          v = (if neg then - digits_val ds else digits_val ds)
      in if ds = [] \<or> \<not> list_all is_digit ds then None
         else if - (2 ^ 63) \<le> v \<and> v \<le> 2 ^ 63 - 1 then Some v
         else None)"

definition set_field :: "score_field \<Rightarrow> int \<Rightarrow> GeminiScore \<Rightarrow> GeminiScore" where
  "set_field f i score =
     (case f of
        Field_TechnicalSophistication \<Rightarrow> score\<lparr>TechnicalSophistication := i\<rparr>
      | Field_MessageAppropriateness \<Rightarrow> score\<lparr>MessageAppropriateness := i\<rparr>)"

fun decode_members :: "(string \<times> json) list \<Rightarrow> GeminiScore \<Rightarrow> json_error + GeminiScore" where
  "decode_members [] score = Inr score"
| "decode_members ((k, v) # ms) score =
     (case field_of_key k of
        None \<Rightarrow> decode_members ms score
      | Some f \<Rightarrow>
          (case v of
             JNull \<Rightarrow> decode_members ms score
           | JNumber lit \<Rightarrow>
               (case parse_int64 lit of
                  None \<Rightarrow> Inl UnmarshalTypeError
                | Some i \<Rightarrow> decode_members ms (set_field f i score))
           | _ \<Rightarrow> Inl UnmarshalTypeError))"

definition json_Unmarshal :: "string \<Rightarrow> json_error + GeminiScore" where
  "json_Unmarshal data =
     (case parse_json data of
        None \<Rightarrow> Inl SyntaxError
      | Some v \<Rightarrow>
          (case v of
             JNull \<Rightarrow> Inr \<lparr>TechnicalSophistication = 0, MessageAppropriateness = 0\<rparr>
           | JObject ms \<Rightarrow>
               decode_members ms \<lparr>TechnicalSophistication = 0, MessageAppropriateness = 0\<rparr>
           | _ \<Rightarrow> Inl UnmarshalTypeError))"

text \<open>
  \<^verbatim>\<open>AnalyzeCommitsWithGemini\<close>. The prompt is a fixed template filled with the
  repository name, the commit count and the sampled commits, so the answer of the model
  is taken as a function of these three.
\<close>

datatype eval_error =
    GenerateContentFailed
  | EmptyResponse
  | UnexpectedPartType
  | NoJSONFound
  | JSONParseFailed json_error

definition parse_gemini_response :: "string \<Rightarrow> eval_error + GeminiScore" where
  "parse_gemini_response jsonResponse =
     (case extract_json jsonResponse of
        None \<Rightarrow> Inl NoJSONFound
      | Some extractedJSON \<Rightarrow>
          (case json_Unmarshal extractedJSON of
             Inl e \<Rightarrow> Inl (JSONParseFailed e)
           | Inr score \<Rightarrow> Inr score))"

definition response_text :: "gen_response \<Rightarrow> eval_error + string" where
  "response_text resp =
     (case resp of
        Inl err \<Rightarrow> Inl GenerateContentFailed
      | Inr candidates \<Rightarrow>
          (case candidates of
             [] \<Rightarrow> Inl EmptyResponse
           | cand # _ \<Rightarrow>
               (case Content cand of
                  None \<Rightarrow> Inl EmptyResponse
                | Some content \<Rightarrow>
                    (case Parts content of
                       [] \<Rightarrow> Inl EmptyResponse
                     | p # _ \<Rightarrow>
                         (case p of
                            Text textPart \<Rightarrow> Inr textPart
                          | OtherPart \<Rightarrow> Inl UnexpectedPartType)))))"

type_synonym evaluator = "string \<Rightarrow> int \<Rightarrow> CommitInfo list \<Rightarrow> gen_response"

definition AnalyzeCommitsWithGemini ::
  "evaluator \<Rightarrow> string \<Rightarrow> int \<Rightarrow> CommitInfo list \<Rightarrow> (eval_error + GeminiScore) \<times> event list" where
  "AnalyzeCommitsWithGemini generateContent repoName totalCommitCount sampledCommits =
     (if totalCommitCount = 0 then
        (Inr \<lparr>TechnicalSophistication = 0, MessageAppropriateness = 0\<rparr>, [])
      else if sampledCommits = [] then
        (Inr \<lparr>TechnicalSophistication = 1, MessageAppropriateness = 0\<rparr>, [])
      else
        (case response_text (generateContent repoName totalCommitCount sampledCommits) of
           Inl e \<Rightarrow> Inl e
         | Inr jsonResponse \<Rightarrow> parse_gemini_response jsonResponse,
         [EvGenerateContent repoName]))"

subsection \<open>Counting and listing the commits\<close>

text \<open>
  The answer of \<^verbatim>\<open>Repositories.ListCommits\<close> to the request for one page: an error
  (with the status code of the response when there is a response, and the text of the
  error), or the commits of the page and \<^verbatim>\<open>resp.NextPage\<close>.
\<close>

datatype list_response =
    ListErr "int option" string
  | ListOk "RepositoryCommit list" int

type_synonym commit_lister = "int \<Rightarrow> list_response"

definition count_error_text :: "string \<Rightarrow> string \<Rightarrow> string \<Rightarrow> string" where
  "count_error_text owner repoName err =
     ''failed to list commits for '' @ owner @ ''/'' @ repoName @ '' during full count: '' @ err"

text \<open>
  \<^verbatim>\<open>countAllCommits\<close>: the loop follows \<^verbatim>\<open>NextPage\<close> until it is 0. A listing
  that never ends keeps the loop running; the first argument bounds the number of
  pages, and \<open>None\<close> says that the bound was reached. \<open>Inl\<close> is the error returned
  (together with the count 0).
\<close>

fun count_loop ::
  "nat \<Rightarrow> commit_lister \<Rightarrow> string \<Rightarrow> string \<Rightarrow> int \<Rightarrow> int \<Rightarrow> (string + int) option" where
  "count_loop 0 listCommits owner repoName page commitCount = None"
| "count_loop (Suc fuel) listCommits owner repoName page commitCount =
     (case listCommits page of
        ListErr status err \<Rightarrow>
          if status = Some 409 then Some (Inr 0)
          else Some (Inl (count_error_text owner repoName err))
      | ListOk commits nextPage \<Rightarrow>
          (let commitCount = commitCount + int (length commits)
           in if nextPage = 0 then Some (Inr commitCount)
              else count_loop fuel listCommits owner repoName nextPage commitCount))"

definition countAllCommits ::
  "nat \<Rightarrow> commit_lister \<Rightarrow> string \<Rightarrow> string \<Rightarrow> (string + int) option" where
  "countAllCommits fuel listCommits owner repoName =
     count_loop fuel listCommits owner repoName 0 0"

text \<open>
  The page that the loops request after \<open>n\<close> answers, when the listing goes that far:
  \<open>None\<close> when an error or a \<^verbatim>\<open>NextPage\<close> of 0 came before.
\<close>

fun nth_page :: "commit_lister \<Rightarrow> int \<Rightarrow> nat \<Rightarrow> int option" where
  "nth_page listCommits page 0 = Some page"
| "nth_page listCommits page (Suc n) =
     (case listCommits page of
        ListErr status err \<Rightarrow> None
      | ListOk commits nextPage \<Rightarrow> if nextPage = 0 then None else nth_page listCommits nextPage n)"

text \<open>\<^verbatim>\<open>strings.Contains\<close>, and the two tests that
  \<^verbatim>\<open>GetRepositoryCommitAnalysisData\<close> makes on the text of a counting error.\<close>

definition Contains :: "string \<Rightarrow> string \<Rightarrow> bool" where
  "Contains s substr = sublist substr s"

definition empty_repo_error_text :: "string \<Rightarrow> string \<Rightarrow> string" where
  "empty_repo_error_text owner repoName =
     ''failed to list commits for '' @ owner @ ''/'' @ repoName
       @ '' during full count: GET https://api.github.com/repos/'' @ owner @ ''/'' @ repoName
       @ ''/commits?per_page=100: 409  []''"

text \<open>
  Step 2 of \<^verbatim>\<open>GetRepositoryCommitAnalysisData\<close>: the SHAs of the commits, page by
  page. \<open>Some None\<close> is the return on a listing error, \<open>None\<close> the bound on the
  pages.
\<close>

definition page_SHAs :: "RepositoryCommit list \<Rightarrow> string list" where
  "page_SHAs commitsPage = concat (map (\<lambda>c. case rc_SHA c of None \<Rightarrow> [] | Some sha \<Rightarrow> [sha]) commitsPage)"

fun list_loop ::
  "nat \<Rightarrow> commit_lister \<Rightarrow> int \<Rightarrow> string list \<Rightarrow> int \<Rightarrow> int \<Rightarrow> string list option option" where
  "list_loop 0 listCommits page allCommitSHAs totalCommits num = None"
| "list_loop (Suc fuel) listCommits page allCommitSHAs totalCommits num =
     (case listCommits page of
        ListErr status listErr \<Rightarrow> Some None
      | ListOk commitsPage nextPage \<Rightarrow>
          (let allCommitSHAs = allCommitSHAs @ page_SHAs commitsPage
           in if nextPage = 0 \<or> totalCommits \<le> int (length allCommitSHAs) then Some (Some allCommitSHAs)
              else if 500 < length allCommitSHAs \<and> num \<le> 10 then Some (Some allCommitSHAs)
              else list_loop fuel listCommits nextPage allCommitSHAs totalCommits num))"

text \<open>
  What \<^verbatim>\<open>GetRepositoryCommitAnalysisData\<close> meets for one repository: the answers to
  the listing requests of the counting pass and to those of the SHA pass (the code itself
  reckons with a repository that changes between the two), the answers to
  \<^verbatim>\<open>GetCommit\<close>, and the random draws.
\<close>

record repo_env =
  count_pass :: commit_lister
  sha_pass :: commit_lister
  getCommit :: "string \<Rightarrow> string + RepositoryCommit"
  entropy :: reader
  generateContent :: evaluator

datatype analysis_error = CountingFailed string

text \<open>Steps 2 to 4, for a repository with \<open>totalCommits \<noteq> 0\<close>.\<close>

definition sample_commits ::
  "nat \<Rightarrow> repo_env \<Rightarrow> int \<Rightarrow> int \<Rightarrow> int
     \<Rightarrow> ((analysis_error + int \<times> CommitInfo list) \<times> event list) option" where
  "sample_commits fuel env totalCommits num limit =
     (case list_loop fuel (sha_pass env) 0 [] totalCommits num of
        None \<Rightarrow> None
      | Some None \<Rightarrow> Some (Inr (totalCommits, []), [])
      | Some (Some allCommitSHAs) \<Rightarrow>
          if allCommitSHAs = [] then Some (Inr (totalCommits, []), [])
          else
            (let finalSelectedSHAs = select_random_SHAs (entropy env) allCommitSHAs num;
                 (analyzedCommits, trace) = fetch_details (getCommit env) limit finalSelectedSHAs
             in Some (Inr (totalCommits, analyzedCommits), trace)))"

text \<open>
  \<^verbatim>\<open>GetRepositoryCommitAnalysisData\<close>. An error of \<^verbatim>\<open>countAllCommits\<close> comes with
  the count 0; it is passed over when its text is that of the empty repository or
  contains \<^verbatim>\<open>409\<close>, and the function then returns as for a repository of 0 commits.
\<close>

definition GetRepositoryCommitAnalysisData ::
  "nat \<Rightarrow> repo_env \<Rightarrow> string \<Rightarrow> string \<Rightarrow> int \<Rightarrow> int
     \<Rightarrow> ((analysis_error + int \<times> CommitInfo list) \<times> event list) option" where
  "GetRepositoryCommitAnalysisData fuel env owner repoName num limit =
     (case countAllCommits fuel (count_pass env) owner repoName of
        None \<Rightarrow> None
      | Some (Inl err) \<Rightarrow>
          (let totalCommits = (0::int)
           in if err = empty_repo_error_text owner repoName \<and> totalCommits = 0 then Some (Inr (0, []), [])
              else if totalCommits = 0 \<and> Contains err ''409'' then Some (Inr (0, []), [])
              else Some (Inl (CountingFailed err), []))
      | Some (Inr totalCommits) \<Rightarrow>
          if totalCommits = 0 then Some (Inr (0, []), [])
          else sample_commits fuel env totalCommits num limit)"

subsection \<open>The loop of \<^verbatim>\<open>main\<close>\<close>

text \<open>The body of the loop for one named repository.\<close>

definition process_repo ::
  "nat \<Rightarrow> repo_env \<Rightarrow> string \<Rightarrow> string \<Rightarrow> (RepoScore \<times> event list) option" where
  "process_repo fuel env organization repoName =
     (case GetRepositoryCommitAnalysisData fuel env organization repoName
             numRandomCommitsToAnalyze diffLinesLimit of
        None \<Rightarrow> None
      | Some (Inl err, trace) \<Rightarrow>
          Some (\<lparr>Name = repoName, CommitCount = - 1, TechnicalScore = 0, MessageScore = 0,
                 OverallScore = 0, AnalyzedCommitsCount = 0, SampledCommits = []\<rparr>, trace)
      | Some (Inr (totalRepoCommits, sampledCommits), trace) \<Rightarrow>
          if totalRepoCommits = 0 then
            Some (\<lparr>Name = repoName, CommitCount = 0, TechnicalScore = 0, MessageScore = 0,
                   OverallScore = 0, AnalyzedCommitsCount = 0, SampledCommits = []\<rparr>, trace)
          else
            (case AnalyzeCommitsWithGemini (generateContent env) repoName totalRepoCommits sampledCommits of
               (Inl err, trace') \<Rightarrow>
                 Some (\<lparr>Name = repoName, CommitCount = totalRepoCommits, TechnicalScore = 0,
                        MessageScore = 0, OverallScore = 0,
                        AnalyzedCommitsCount = int (length sampledCommits),
                        SampledCommits = sampledCommits\<rparr>, trace @ trace')
             | (Inr geminiEval, trace') \<Rightarrow>
                 Some (\<lparr>Name = repoName, CommitCount = totalRepoCommits,
                        TechnicalScore = TechnicalSophistication geminiEval,
                        MessageScore = MessageAppropriateness geminiEval,
                        OverallScore = overall_score totalRepoCommits geminiEval,
                        AnalyzedCommitsCount = int (length sampledCommits),
                        SampledCommits = sampledCommits\<rparr>, trace @ trace')))"

text \<open>
  \<^verbatim>\<open>for i, repo := range repos\<close>: \<open>repos\<close> holds the names (\<^verbatim>\<open>repo.GetName()\<close>,
  empty for a repository without name, which is skipped), \<open>world\<close> what the run meets
  for each repository.
\<close>

fun process_repos ::
  "nat \<Rightarrow> (string \<Rightarrow> repo_env) \<Rightarrow> string \<Rightarrow> string list \<Rightarrow> (RepoScore list \<times> event list) option" where
  "process_repos fuel world organization [] = Some ([], [])"
| "process_repos fuel world organization (repoName # repos) =
     (if repoName = [] then process_repos fuel world organization repos
      else
        (case process_repo fuel (world repoName) organization repoName of
           None \<Rightarrow> None
         | Some (score, trace) \<Rightarrow>
             (case process_repos fuel world organization repos of
                None \<Rightarrow> None
              | Some (repoScores, trace') \<Rightarrow> Some (score # repoScores, trace @ trace'))))"

definition main_ranking ::
  "nat \<Rightarrow> (string \<Rightarrow> repo_env) \<Rightarrow> string \<Rightarrow> string list \<Rightarrow> (RepoScore list \<times> event list) option" where
  "main_ranking fuel world organization repos =
     map_option (\<lambda>(repoScores, trace). (rank_repoScores repoScores, trace))
       (process_repos fuel world organization repos)"

subsection \<open>The aggregation formula of the specification\<close>

text \<open>
  \<open>(min(c, 1000) / 1000 * 10) * 0.2 + t * 0.4 + m * 0.4\<close>, computed in
  \<^verbatim>\<open>float64\<close> from left to right.
\<close>

definition spec_overall :: "int \<Rightarrow> int \<Rightarrow> int \<Rightarrow> float64" where
  "spec_overall c t m =
     f64_add
       (f64_add
          (f64_mul (f64_mul (f64_div (of_int (min c 1000)) 1000) 10) (f64 (2 / 10)))
          (f64_mul (f64 (of_int t)) (f64 (4 / 10))))
       (f64_mul (f64 (of_int m)) (f64 (4 / 10)))"

subsection \<open>Example runs\<close>

text \<open>A repository of six commits; the detail of commit \<open>s2\<close> cannot be fetched; the
  random draws are all 0; the model answers with plain JSON.\<close>

definition ex_listed :: "string \<Rightarrow> RepositoryCommit" where
  "ex_listed sha = \<lparr>rc_SHA = Some sha, rc_Commit = None, rc_Files = []\<rparr>"

definition ex_page :: "RepositoryCommit list" where
  "ex_page = map ex_listed [''s1'', ''s2'', ''s3'', ''s4'', ''s5'', ''s6'']"

definition ex_answer :: string where
  \<open>ex_answer = ''{"technical_sophistication": 10, "message_appropriateness": 10}''\<close>

definition ex_candidates :: "string \<Rightarrow> gen_response" where
  "ex_candidates answer = Inr [\<lparr>Content = Some \<lparr>Parts = [Text answer]\<rparr>\<rparr>]"

definition ex_env :: repo_env where
  "ex_env =
     \<lparr>count_pass = (\<lambda>page. ListOk ex_page 0),
      sha_pass = (\<lambda>page. ListOk ex_page 0),
      getCommit = (\<lambda>sha. if sha = ''s2'' then Inl ''404 Not Found'' else Inr ex_commit),
      entropy = (\<lambda>t. 0),
      generateContent = (\<lambda>repoName totalCommitCount sampledCommits. ex_candidates ex_answer)\<rparr>"

text \<open>The same repository when the model answers with one field only, and with scores
  outside \<open>[0, 10]\<close>.\<close>

definition ex_answer_one_field :: string where
  \<open>ex_answer_one_field = ''{"technical_sophistication": 7}''\<close>

definition ex_answer_out_of_range :: string where
  \<open>ex_answer_out_of_range = ''{"technical_sophistication": 20, "message_appropriateness": -30}''\<close>

text \<open>A repository whose listing fails with status 500 while it is counted; the
  organization is \<open>acme\<close>, the repository \<open>r409\<close>.\<close>

definition ex_env_500 :: repo_env where
  "ex_env_500 =
     ex_env\<lparr>count_pass :=
       (\<lambda>page. ListErr (Some 500)
          ''GET https://api.github.com/repos/acme/r409/commits?per_page=100: 500 Internal Server Error []'')\<rparr>"

text \<open>A repository whose listing fails without a response while it is counted.\<close>

definition ex_env_down :: repo_env where
  "ex_env_down = ex_env\<lparr>count_pass := (\<lambda>page. ListErr None ''dial tcp: i/o timeout'')\<rparr>"

text \<open>A repository that has one commit when it is counted and three when its SHAs are
  listed.\<close>

definition ex_env_grown :: repo_env where
  "ex_env_grown =
     ex_env\<lparr>count_pass := (\<lambda>page. ListOk [ex_listed ''s1''] 0),
            sha_pass := (\<lambda>page. ListOk (map ex_listed [''s3'', ''s4'', ''s1'']) 0)\<rparr>"

text \<open>A repository without commits.\<close>

definition ex_env_empty :: repo_env where
  "ex_env_empty = ex_env\<lparr>count_pass := (\<lambda>page. ListOk [] 0)\<rparr>"

text \<open>The repository of six commits, with the other answers of the model.\<close>

definition ex_env_one_field :: repo_env where
  "ex_env_one_field =
     ex_env\<lparr>generateContent :=
       (\<lambda>repoName totalCommitCount sampledCommits. ex_candidates ex_answer_one_field)\<rparr>"

definition ex_env_out_of_range :: repo_env where
  "ex_env_out_of_range =
     ex_env\<lparr>generateContent :=
       (\<lambda>repoName totalCommitCount sampledCommits. ex_candidates ex_answer_out_of_range)\<rparr>"

definition ex_env_prose :: repo_env where
  "ex_env_prose =
     ex_env\<lparr>generateContent :=
       (\<lambda>repoName totalCommitCount sampledCommits. ex_candidates ''The commits look fine.'')\<rparr>"

text \<open>The commits packaged in these runs.\<close>

definition ex_sampled :: "CommitInfo list" where
  "ex_sampled =
     [package_commit 100 ''s3'' ex_commit, package_commit 100 ''s4'' ex_commit,
      package_commit 100 ''s5'' ex_commit, package_commit 100 ''s6'' ex_commit]"

definition ex_sampled_grown :: "CommitInfo list" where
  "ex_sampled_grown =
     [package_commit 100 ''s4'' ex_commit, package_commit 100 ''s1'' ex_commit,
      package_commit 100 ''s3'' ex_commit]"

section \<open>Properties\<close>

subsection \<open>The sampler\<close>

lemma shuffle_loop_mset:
  "m < length xs \<Longrightarrow> mset (shuffle_loop rd t m xs) = mset xs"
proof (induction m arbitrary: t xs)
  case 0
  then show ?case by simp
next
  case (Suc m)
  let ?j = "rand_Int rd t (Suc m + 1)"
  have j: "?j < length xs"
    using Suc.prems by (simp add: rand_Int_def) (metis Suc_lessD less_trans_Suc mod_less_divisor not_less_eq zero_less_Suc)
  have "mset (xs[Suc m := xs ! ?j, ?j := xs ! Suc m]) = mset xs"
    using Suc.prems j by (simp add: mset_swap)
  moreover have "m < length (xs[Suc m := xs ! ?j, ?j := xs ! Suc m])"
    using Suc.prems by simp
  ultimately show ?case
    using Suc.IH[of "xs[Suc m := xs ! ?j, ?j := xs ! Suc m]" "Suc t"] by (simp add: Let_def)
qed

lemma shuffled_indices_mset: "mset (shuffled_indices rd n) = mset [0..<n]"
proof (cases n)
  case 0
  then show ?thesis by (simp add: shuffled_indices_def)
next
  case (Suc k)
  then show ?thesis by (simp add: shuffled_indices_def shuffle_loop_mset)
qed

lemma shuffled_indices_length: "length (shuffled_indices rd n) = n"
  using shuffled_indices_mset[of rd n] by (metis length_upt diff_zero mset_eq_length)

lemma shuffled_indices_set: "set (shuffled_indices rd n) = {..<n}"
  using shuffled_indices_mset[of rd n] by (metis atLeast_upt mset_eq_setD)

lemma shuffled_indices_distinct: "distinct (shuffled_indices rd n)"
  using shuffled_indices_mset[of rd n] by (metis distinct_upt mset_eq_imp_distinct_iff)

lemma select_random_SHAs_take:
  "select_random_SHAs rd shas num =
     map ((!) shas) (take (nat num) (shuffled_indices rd (length shas)))"
proof -
  let ?ix = "shuffled_indices rd (length shas)"
  let ?k = "nat (if int (length shas) < num then int (length shas) else num)"
  have k: "?k = min (nat num) (length shas)" by auto
  have "take ?k (map (\<lambda>i. ?ix ! i) [0..<length ?ix]) = map (\<lambda>i. ?ix ! i) [0..<?k]"
    unfolding take_map using k by (simp add: shuffled_indices_length take_upt min_def)
  then have "map (\<lambda>i. ?ix ! i) [0..<?k] = take ?k ?ix"
    by (simp add: map_nth)
  then have "map (\<lambda>i. shas ! (?ix ! i)) [0..<?k] = map ((!) shas) (take ?k ?ix)"
    by (metis (no_types, lifting) map_map comp_apply map_eq_conv)
  moreover have "take ?k ?ix = take (nat num) ?ix"
    using k by (simp add: shuffled_indices_length min_def)
  ultimately show ?thesis by (simp add: select_random_SHAs_def Let_def)
qed

lemma mset_nths_subset:
  assumes "distinct js" and "\<forall>i \<in> set js. i < length xs"
  shows "mset (map ((!) xs) js) \<subseteq># mset xs"
proof -
  have "mset js = mset_set (set js)"
    using assms(1) by (simp add: mset_set_set)
  moreover have "mset [0..<length xs] = mset_set {0..<length xs}"
    by (metis mset_upt)
  moreover have "set js \<subseteq> {0..<length xs}" using assms(2) by auto
  ultimately have "mset js \<subseteq># mset [0..<length xs]"
    by (simp add: subset_imp_msubset_mset_set)
  then have "image_mset ((!) xs) (mset js) \<subseteq># image_mset ((!) xs) (mset [0..<length xs])"
    by (rule image_mset_subseteq_mono)
  moreover have "image_mset ((!) xs) (mset [0..<length xs]) = mset xs"
    by (metis map_nth mset_map)
  ultimately show ?thesis by simp
qed

text \<open>
  Claim C1. For every population \<open>shas\<close> of \<open>n\<close> commit identifiers, every requested
  sample size \<open>num\<close> and every outcome \<open>rd\<close> of the random draws, the sampler
  returns \<open>min num n\<close> identifiers (none when \<open>num\<close> is negative): the identifiers at
  the first \<open>num\<close> positions of the shuffled index array, which is a permutation of
  \<open>[0, n)\<close>. The selected positions are pairwise distinct, so the sample is drawn
  without replacement: it is a part of the population as a multiset, every returned
  identifier is an element of the population, and the returned identifiers are pairwise
  distinct whenever the population lists no identifier twice (commit identifiers are
  unique within a repository). On the empty population the result is empty; the sampler
  has no failure outcome.
\<close>

theorem select_random_SHAs_sample:
  "length (select_random_SHAs rd shas num) = min (nat num) (length shas)
   \<and> select_random_SHAs rd shas num
       = map ((!) shas) (take (nat num) (shuffled_indices rd (length shas)))
   \<and> mset (shuffled_indices rd (length shas)) = mset [0..<length shas]
   \<and> distinct (take (nat num) (shuffled_indices rd (length shas)))
   \<and> mset (select_random_SHAs rd shas num) \<subseteq># mset shas
   \<and> set (select_random_SHAs rd shas num) \<subseteq> set shas
   \<and> (distinct shas \<longrightarrow> distinct (select_random_SHAs rd shas num))
   \<and> select_random_SHAs rd [] num = []"
proof -
  let ?ix = "shuffled_indices rd (length shas)"
  let ?sel = "take (nat num) ?ix"
  have eq: "select_random_SHAs rd shas num = map ((!) shas) ?sel"
    by (rule select_random_SHAs_take)
  have len: "length (select_random_SHAs rd shas num) = min (nat num) (length shas)"
    by (simp add: eq shuffled_indices_length min.commute)
  have dsel: "distinct ?sel"
    by (simp add: shuffled_indices_distinct)
  have bound: "\<forall>i \<in> set ?sel. i < length shas"
    using shuffled_indices_set[of rd "length shas"] by (auto dest: in_set_takeD)
  have part: "mset (select_random_SHAs rd shas num) \<subseteq># mset shas"
    unfolding eq using dsel bound by (rule mset_nths_subset)
  have sub: "set (select_random_SHAs rd shas num) \<subseteq> set shas"
    using bound by (auto simp: eq)
  have dist: "distinct (select_random_SHAs rd shas num)" if "distinct shas"
    unfolding eq using that dsel bound by (simp add: distinct_map inj_on_nth)
  have emp: "select_random_SHAs rd [] num = []"
    by (simp add: select_random_SHAs_take shuffled_indices_def)
  show ?thesis
    using eq len dsel part sub dist emp shuffled_indices_mset by blast
qed

theorem select_random_SHAs_sample_witness:
  "distinct [''a'', ''b'', ''c'', ''d'']
   \<and> select_random_SHAs (\<lambda>t. 2 * t + 1) [''a'', ''b'', ''c'', ''d''] 2 = [''c'', ''d'']
   \<and> distinct (select_random_SHAs (\<lambda>t. 2 * t + 1) [''a'', ''b'', ''c'', ''d''] 2)"
proof -
  have d: "distinct [''a'', ''b'', ''c'', ''d'']" by simp
  have v: "select_random_SHAs (\<lambda>t. 2 * t + 1) [''a'', ''b'', ''c'', ''d''] 2 = [''c'', ''d'']"
    by code_simp
  show ?thesis
    using d v select_random_SHAs_sample[of "\<lambda>t. 2 * t + 1" "[''a'', ''b'', ''c'', ''d'']" 2]
    by blast
qed

subsection \<open>The diff packager\<close>

lemma write_lines_fit:
  "int (cur + length ls) \<le> lm \<Longrightarrow>
   write_lines lm ls (b, cur) = ((b @ map Line ls, cur + length ls), False)"
  by (induction ls arbitrary: b cur) auto

lemma write_lines_cut:
  "int cur \<le> lm \<Longrightarrow> lm < int (cur + length ls) \<Longrightarrow>
   write_lines lm ls (b, cur) =
     ((b @ map Line (take (nat lm - cur) ls) @ [Truncated], nat lm), True)"
proof (induction ls arbitrary: b cur)
  case Nil
  then show ?case by simp
next
  case (Cons l ls)
  show ?case
  proof (cases "lm \<le> int cur")
    case True
    with Cons.prems have "nat lm = cur" by simp
    with True show ?thesis by simp
  next
    case False
    then have "int (Suc cur) \<le> lm" by simp
    moreover have "lm < int (Suc cur + length ls)" using Cons.prems by simp
    ultimately have "write_lines lm ls (b @ [Line l], Suc cur) =
      (((b @ [Line l]) @ map Line (take (nat lm - Suc cur) ls) @ [Truncated], nat lm), True)"
      by (rule Cons.IH)
    moreover have "take (nat lm - cur) (l # ls) = l # take (nat lm - Suc cur) ls"
    proof -
      have "nat lm - cur = Suc (nat lm - Suc cur)" using False by linarith
      then show ?thesis by simp
    qed
    ultimately show ?thesis using False by simp
  qed
qed

lemma patch_lines_Cons:
  "patch_lines (f # fs) =
     (if GetPatch f \<noteq> [] then split_lines (GetPatch f) @ patch_lines fs else patch_lines fs)"
  by (simp add: patch_lines_def)

lemma write_files_cut:
  "0 < lm \<Longrightarrow> int cur \<le> lm \<Longrightarrow> lm < int (cur + length (patch_lines files)) \<Longrightarrow>
   \<exists>body. write_files lm files (b, cur) = b @ body @ [Truncated]
          \<and> filter (\<lambda>c. c \<noteq> Separator) body = map Line (take (nat lm - cur) (patch_lines files))"
proof (induction files arbitrary: b cur)
  case Nil
  then show ?case by (simp add: patch_lines_def)
next
  case (Cons f fs)
  show ?case
  proof (cases "GetPatch f = []")
    case True
    with Cons.prems have "lm < int (cur + length (patch_lines fs))"
      by (simp add: patch_lines_Cons)
    from Cons.IH[OF Cons.prems(1,2) this, of b] True show ?thesis
      by (simp add: patch_lines_Cons)
  next
    case False
    let ?ls = "split_lines (GetPatch f)"
    show ?thesis
    proof (cases "int (cur + length ?ls) \<le> lm")
      case fit: True
      let ?b' = "if int (cur + length ?ls) < lm then b @ map Line ?ls @ [Separator] else b @ map Line ?ls"
      have step: "write_files lm (f # fs) (b, cur) = write_files lm fs (?b', cur + length ?ls)"
        using False Cons.prems(1) write_lines_fit[OF fit, of b] by simp
      have rest: "lm < int ((cur + length ?ls) + length (patch_lines fs))"
        using Cons.prems(3) False by (simp add: patch_lines_Cons)
      from Cons.IH[OF Cons.prems(1) fit rest, of ?b']
      obtain body where body: "write_files lm fs (?b', cur + length ?ls) = ?b' @ body @ [Truncated]"
        and fl: "filter (\<lambda>c. c \<noteq> Separator) body
                 = map Line (take (nat lm - (cur + length ?ls)) (patch_lines fs))"
        by blast
      let ?body = "(if int (cur + length ?ls) < lm then map Line ?ls @ [Separator] else map Line ?ls) @ body"
      have "write_files lm (f # fs) (b, cur) = b @ ?body @ [Truncated]"
        using step body by simp
      moreover have "filter (\<lambda>c. c \<noteq> Separator) (map Line ?ls) = map Line ?ls"
        by (induction ?ls) auto
      then have "filter (\<lambda>c. c \<noteq> Separator) ?body
          = map Line ?ls @ map Line (take (nat lm - (cur + length ?ls)) (patch_lines fs))"
        using fl by simp
      moreover have "take (nat lm - cur) (patch_lines (f # fs))
          = ?ls @ take (nat lm - (cur + length ?ls)) (patch_lines fs)"
        using fit False by (simp add: patch_lines_Cons) 
      ultimately show ?thesis by (metis map_append)
    next
      case cut: False
      then have c: "lm < int (cur + length ?ls)" by simp
      have "write_files lm (f # fs) (b, cur) = b @ map Line (take (nat lm - cur) ?ls) @ [Truncated]"
        using False Cons.prems(1) write_lines_cut[OF Cons.prems(2) c, of b] by simp
      moreover have "filter (\<lambda>c. c \<noteq> Separator) (map Line (take (nat lm - cur) ?ls))
           = map Line (take (nat lm - cur) ?ls)"
        by (induction "take (nat lm - cur) ?ls") (auto simp: filter_map comp_def)
      moreover have "take (nat lm - cur) (patch_lines (f # fs)) = take (nat lm - cur) ?ls"
        using c False Cons.prems(2) by (simp add: patch_lines_Cons)
      ultimately show ?thesis by metis
    qed
  qed
qed


lemma not_suffix_truncated: "\<not> suffix patch_separator (xs @ truncation_marker)"
proof
  assume "suffix patch_separator (xs @ truncation_marker)"
  then have "suffix patch_separator truncation_marker \<or>
      (\<exists>xs'. patch_separator = xs' @ truncation_marker \<and> suffix xs' xs)"
    by (simp add: suffix_append)
  moreover have "\<not> suffix patch_separator truncation_marker"
    by (simp add: patch_separator_def truncation_marker_def nl_def suffix_def)
  moreover have "length patch_separator < length truncation_marker"
    by (simp add: patch_separator_def truncation_marker_def)
  ultimately show False
    by (metis length_append not_add_less2)
qed

lemma TrimSuffix_truncated: "TrimSuffix (xs @ truncation_marker) patch_separator = xs @ truncation_marker"
  by (simp add: TrimSuffix_def not_suffix_truncated)

lemma TrimSuffix_append: "TrimSuffix (xs @ suf) suf = xs"
  by (simp add: TrimSuffix_def suffix_def)

lemma write_files_unlimited:
  "lm \<le> 0 \<Longrightarrow>
   write_files lm files (b, cur) =
     b @ concat (map (\<lambda>f. [WholePatch (GetPatch f), PatchSeparator])
                  (filter (\<lambda>f. GetPatch f \<noteq> []) files))"
  by (induction files arbitrary: b cur) auto

lemma Builder_String_unlimited:
  "Builder_String (concat (map (\<lambda>f. [WholePatch (GetPatch f), PatchSeparator]) fs))
     = concat (map (\<lambda>f. GetPatch f @ patch_separator) fs)"
  by (induction fs) (auto simp: Builder_String_def)

lemma concat_join_patches:
  "ps \<noteq> [] \<Longrightarrow> concat (map (\<lambda>p. p @ patch_separator) ps) = join_patches ps @ patch_separator"
  by (induction ps rule: join_patches.induct) auto


lemma diff_chunks_cut:
  assumes "0 < M" "M < length (patch_lines files)"
  shows "\<exists>body. diff_chunks (int M) files = body @ [Truncated]
          \<and> filter (\<lambda>c. c \<noteq> Separator) body = map Line (take M (patch_lines files))"
  using write_files_cut[of "int M" 0 files "[]"] assms by (simp add: diff_chunks_def)

lemma diff_snippet_unlimited:
  assumes "lm \<le> 0"
  shows "diff_snippet lm files = join_patches (filter (\<lambda>p. p \<noteq> []) (map GetPatch files))"
proof -
  let ?fs = "filter (\<lambda>f. GetPatch f \<noteq> []) files"
  let ?ps = "filter (\<lambda>p. p \<noteq> []) (map GetPatch files)"
  have ps: "?ps = map GetPatch ?fs" by (simp add: filter_map comp_def)
  have str: "Builder_String (diff_chunks lm files) = concat (map (\<lambda>p. p @ patch_separator) ?ps)"
    using assms by (simp add: diff_chunks_def write_files_unlimited Builder_String_unlimited ps comp_def)
  show ?thesis
  proof (cases "?ps = []")
    case True
    then show ?thesis
      using str by (simp add: diff_snippet_def TrimSuffix_def patch_separator_def)
  next
    case False
    then show ?thesis
      using str by (simp add: diff_snippet_def concat_join_patches TrimSuffix_append)
  qed
qed

lemma diff_chunks_unlimited_no_marker:
  "lm \<le> 0 \<Longrightarrow> Truncated \<notin> set (diff_chunks lm files)"
  by (auto simp: diff_chunks_def write_files_unlimited)

text \<open>
  Claim C2. Let the patches of a sampled commit have \<open>L\<close> lines in all. For a line
  limit \<open>M\<close> with \<open>0 < M < L\<close> the writes to the builder end with the truncation
  marker, the content lines written before it are exactly the first \<open>M\<close> lines (with
  nothing but separator lines between them), and the packaged diff is that text followed
  by the marker: no line beyond line \<open>M\<close> and nothing of the remaining files is in it.
  For a limit \<open>\<le> 0\<close> the marker is never written and the packaged diff is the full
  patches of the files, joined by separator lines.
\<close>

theorem package_commit_truncation:
  "(0 < M \<and> M < length (patch_lines (rc_Files commit)) \<longrightarrow>
      (let written = diff_chunks (int M) (rc_Files commit) in
         written = butlast written @ [Truncated]
       \<and> filter (\<lambda>c. c \<noteq> Separator) (butlast written)
           = map Line (take M (patch_lines (rc_Files commit)))
       \<and> Diff (package_commit (int M) sha commit)
           = Builder_String (butlast written) @ truncation_marker))
   \<and> (lm \<le> 0 \<longrightarrow>
        Truncated \<notin> set (diff_chunks lm (rc_Files commit))
      \<and> Diff (package_commit lm sha commit)
          = join_patches (filter (\<lambda>p. p \<noteq> []) (map GetPatch (rc_Files commit))))"
proof (intro conjI impI)
  assume "0 < M \<and> M < length (patch_lines (rc_Files commit))"
  then obtain body where b: "diff_chunks (int M) (rc_Files commit) = body @ [Truncated]"
    and f: "filter (\<lambda>c. c \<noteq> Separator) body = map Line (take M (patch_lines (rc_Files commit)))"
    using diff_chunks_cut by blast
  have "Diff (package_commit (int M) sha commit) = Builder_String body @ truncation_marker"
    by (simp add: package_commit_def diff_snippet_def b Builder_String_def TrimSuffix_truncated)
  then show "let written = diff_chunks (int M) (rc_Files commit) in
         written = butlast written @ [Truncated]
       \<and> filter (\<lambda>c. c \<noteq> Separator) (butlast written)
           = map Line (take M (patch_lines (rc_Files commit)))
       \<and> Diff (package_commit (int M) sha commit)
           = Builder_String (butlast written) @ truncation_marker"
    using b f by (simp add: Let_def)
next
  assume "lm \<le> 0"
  then show "Truncated \<notin> set (diff_chunks lm (rc_Files commit))"
    by (rule diff_chunks_unlimited_no_marker)
next
  assume "lm \<le> 0"
  then show "Diff (package_commit lm sha commit)
          = join_patches (filter (\<lambda>p. p \<noteq> []) (map GetPatch (rc_Files commit)))"
    by (simp add: package_commit_def diff_snippet_unlimited)
qed

theorem package_commit_truncation_witness:
  "0 < (3::nat) \<and> 3 < length (patch_lines (rc_Files ex_commit)) \<and> (0::int) \<le> 0
   \<and> patch_lines (rc_Files ex_commit) = [''a'', ''b'', ''c'', ''d'', ''e'']
   \<and> diff_chunks 3 (rc_Files ex_commit) = [Line ''a'', Line ''b'', Separator, Line ''c'', Truncated]
   \<and> filter (\<lambda>c. c \<noteq> Separator) (butlast (diff_chunks 3 (rc_Files ex_commit)))
       = map Line (take 3 (patch_lines (rc_Files ex_commit)))
   \<and> Diff (package_commit 3 ''s1'' ex_commit)
       = ''a\<newline>b\<newline>---\<newline>c\<newline>\<newline>... (diff truncated due to line limit)\<newline>''
   \<and> Diff (package_commit 0 ''s1'' ex_commit) = ''a\<newline>b\<newline>---\<newline>c\<newline>d\<newline>e''"
proof -
  have l: "patch_lines (rc_Files ex_commit) = [''a'', ''b'', ''c'', ''d'', ''e'']"
    by (simp add: ex_commit_def patch_lines_def GetPatch_def nl_def)
  have h: "0 < (3::nat) \<and> 3 < length (patch_lines (rc_Files ex_commit))"
    by (simp add: l)
  have c: "diff_chunks 3 (rc_Files ex_commit) = [Line ''a'', Line ''b'', Separator, Line ''c'', Truncated]"
    by (simp add: ex_commit_def diff_chunks_def GetPatch_def nl_def)
  have d3: "Diff (package_commit 3 ''s1'' ex_commit)
       = ''a\<newline>b\<newline>---\<newline>c\<newline>\<newline>... (diff truncated due to line limit)\<newline>''"
    by (simp add: ex_commit_def package_commit_def diff_snippet_def diff_chunks_def GetPatch_def
        nl_def Builder_String_def TrimSuffix_def truncation_marker_def patch_separator_def suffix_def)
  have d0: "Diff (package_commit 0 ''s1'' ex_commit) = ''a\<newline>b\<newline>---\<newline>c\<newline>d\<newline>e''"
    using package_commit_truncation[of 3 ex_commit "''s1''" 0]
    by (simp add: ex_commit_def GetPatch_def patch_separator_def nl_def)
  have f: "filter (\<lambda>c. c \<noteq> Separator) (butlast (diff_chunks 3 (rc_Files ex_commit)))
       = map Line (take 3 (patch_lines (rc_Files ex_commit)))"
    using package_commit_truncation[of 3 ex_commit "''s1''" 0] h by (simp add: Let_def)
  show ?thesis using l h c d3 d0 f by simp
qed

subsection \<open>The ranking\<close>

lemma insert_back_mset: "mset (insert_back lt x ys) = add_mset x (mset ys)"
  by (induction ys) auto

lemma insert_back_set: "set (insert_back lt x ys) = insert x (set ys)"
  by (induction ys) auto

lemma insert_back_filter:
  "filter (\<lambda>r. OverallScore r = s) (insert_back less_OverallScore x ys)
     = (if OverallScore x = s then x # filter (\<lambda>r. OverallScore r = s) ys
        else filter (\<lambda>r. OverallScore r = s) ys)"
  by (induction ys) (auto simp: less_OverallScore_def)

lemma insert_back_sorted:
  "sorted_wrt (\<lambda>a b. OverallScore a \<le> OverallScore b) ys \<Longrightarrow>
   sorted_wrt (\<lambda>a b. OverallScore a \<le> OverallScore b) (insert_back less_OverallScore x ys)"
proof (induction ys)
  case Nil
  then show ?case by simp
next
  case (Cons y ys)
  show ?case
  proof (cases "less_OverallScore x y")
    case True
    then have "OverallScore y \<le> OverallScore x" by (simp add: less_OverallScore_def)
    with Cons True show ?thesis by (auto simp: insert_back_set)
  next
    case False
    then have "OverallScore x \<le> OverallScore y" by (simp add: less_OverallScore_def)
    with Cons.prems False show ?thesis by fastforce
  qed
qed

lemma foldl_insert_back_mset:
  "mset (foldl (\<lambda>sorted x. insert_back lt x sorted) acc xs) = mset acc + mset xs"
  by (induction xs arbitrary: acc) (auto simp: insert_back_mset)

lemma foldl_insert_back_sorted:
  "sorted_wrt (\<lambda>a b. OverallScore a \<le> OverallScore b) acc \<Longrightarrow>
   sorted_wrt (\<lambda>a b. OverallScore a \<le> OverallScore b)
     (foldl (\<lambda>sorted x. insert_back less_OverallScore x sorted) acc xs)"
  by (induction xs arbitrary: acc) (auto simp: insert_back_sorted)

lemma foldl_insert_back_filter:
  "filter (\<lambda>r. OverallScore r = s) (foldl (\<lambda>sorted x. insert_back less_OverallScore x sorted) acc xs)
     = rev (filter (\<lambda>r. OverallScore r = s) xs) @ filter (\<lambda>r. OverallScore r = s) acc"
  by (induction xs arbitrary: acc) (auto simp: insert_back_filter)

text \<open>
  The list that is in descending order of score and keeps, for every score, the records
  with that score in their order is unique: every stable sort by the comparison of
  \<^verbatim>\<open>main\<close> returns the list that \<open>SliceStable\<close> returns.
\<close>

lemma stable_descending_unique:
  assumes "sorted_wrt (\<lambda>a b. OverallScore a \<ge> OverallScore b) ys"
    and "sorted_wrt (\<lambda>a b. OverallScore a \<ge> OverallScore b) zs"
    and "\<And>s. filter (\<lambda>r. OverallScore r = s) ys = filter (\<lambda>r. OverallScore r = s) zs"
  shows "ys = zs"
  using assms
proof (induction ys arbitrary: zs)
  case Nil
  have "z \<notin> set zs" for z
  proof
    assume "z \<in> set zs"
    then have m: "z \<in> set (filter (\<lambda>r. OverallScore r = OverallScore z) zs)" by simp
    have e: "filter (\<lambda>r. OverallScore r = OverallScore z) zs = []"
      using Nil.prems(3)[of "OverallScore z"] by simp
    show False using m unfolding e by simp
  qed
  then show ?case by (cases zs) auto
next
  case (Cons y ys)
  have fy: "filter (\<lambda>r. OverallScore r = OverallScore y) zs
      = y # filter (\<lambda>r. OverallScore r = OverallScore y) ys"
    using Cons.prems(3)[of "OverallScore y"] by simp
  then obtain z zs' where zs: "zs = z # zs'" by (cases zs) auto
  have fz: "filter (\<lambda>r. OverallScore r = OverallScore z) (y # ys)
      = z # filter (\<lambda>r. OverallScore r = OverallScore z) zs'"
    using Cons.prems(3)[of "OverallScore z"] zs by simp
  have "y \<in> set (filter (\<lambda>r. OverallScore r = OverallScore y) zs)"
    unfolding fy by simp
  then have "y \<in> set zs" by simp
  then have 1: "OverallScore y \<le> OverallScore z"
    using Cons.prems(2) zs by auto
  have "z \<in> set (filter (\<lambda>r. OverallScore r = OverallScore z) (y # ys))"
    unfolding fz by simp
  then have "z \<in> set (y # ys)" by (simp only: set_filter) blast
  then have 2: "OverallScore z \<le> OverallScore y"
    using Cons.prems(1) by auto
  from 1 2 have k: "OverallScore z = OverallScore y" by simp
  have yz: "y = z" using fy zs k by simp
  have rest: "filter (\<lambda>r. OverallScore r = s) ys = filter (\<lambda>r. OverallScore r = s) zs'" for s
    using Cons.prems(3)[of s] zs yz by (cases "OverallScore z = s") simp_all
  have "ys = zs'"
    using Cons.prems(1,2) zs rest by (intro Cons.IH) simp_all
  then show ?case using zs yz by simp
qed

text \<open>
  Claim C8. The list that \<^verbatim>\<open>main\<close> prints is the collected list, sorted by
  \<^verbatim>\<open>sort.SliceStable\<close>: it is in descending order of overall score, it has the
  same records, and for every score the records with that score stand in the order in
  which the repositories were enumerated.
\<close>

theorem rank_repoScores_stable_descending:
  "sorted_wrt (\<lambda>a b. OverallScore a \<ge> OverallScore b) (rank_repoScores repoScores)
   \<and> mset (rank_repoScores repoScores) = mset repoScores
   \<and> (\<forall>s. filter (\<lambda>r. OverallScore r = s) (rank_repoScores repoScores)
           = filter (\<lambda>r. OverallScore r = s) repoScores)
   \<and> main_ranking fuel world organization repos
       = map_option (\<lambda>(collected, trace). (rank_repoScores collected, trace))
           (process_repos fuel world organization repos)"
proof -
  let ?acc = "foldl (\<lambda>sorted x. insert_back less_OverallScore x sorted) [] repoScores"
  have "sorted_wrt (\<lambda>a b. OverallScore a \<le> OverallScore b) ?acc"
    by (rule foldl_insert_back_sorted) simp
  then have 1: "sorted_wrt (\<lambda>a b. OverallScore a \<ge> OverallScore b) (rank_repoScores repoScores)"
    by (simp add: rank_repoScores_def SliceStable_def sorted_wrt_rev)
  have 2: "mset (rank_repoScores repoScores) = mset repoScores"
    by (simp add: rank_repoScores_def SliceStable_def foldl_insert_back_mset)
  have 3: "filter (\<lambda>r. OverallScore r = s) (rank_repoScores repoScores)
           = filter (\<lambda>r. OverallScore r = s) repoScores" for s
    by (simp add: rank_repoScores_def SliceStable_def rev_filter[symmetric] foldl_insert_back_filter)
  show ?thesis using 1 2 3 by (simp add: main_ranking_def)
qed

subsection \<open>Rounding to \<^verbatim>\<open>float64\<close>\<close>

lemma quantum_up_unfold:
  "quantum_up n a q = (if n = 0 then q else if a < 2^52 then quantum_up (n - 1) (2 * a) (q / 2) else q)"
  by (cases n) auto

lemma quantum_down_unfold:
  "quantum_down n a q = (if n = 0 then q else if 2^53 \<le> a then quantum_down (n - 1) (a / 2) (2 * q) else q)"
  by (cases n) auto

lemma round_half_even_of_int [simp]: "round_half_even (of_int i) = i"
  by (simp add: round_half_even_def)

lemma quantum_up_power: "\<exists>k. quantum_up n a q = q / 2 ^ k"
proof (induction n arbitrary: a q)
  case 0
  show ?case by (rule exI[of _ 0]) simp
next
  case (Suc n)
  show ?case
  proof (cases "a < 2^52")
    case True
    obtain k where "quantum_up n (2 * a) (q / 2) = (q / 2) / 2 ^ k" using Suc by blast
    then have "quantum_up (Suc n) a q = q / 2 ^ Suc k" using True by simp
    then show ?thesis by blast
  next
    case False
    then show ?thesis by (intro exI[of _ 0]) simp
  qed
qed

lemma f64_of_int_small:
  assumes "\<bar>i\<bar> < 2 ^ 53"
  shows "f64 (of_int i) = of_int i"
proof -
  have "\<bar>real_of_int i\<bar> < 2 ^ 53" using assms by (metis of_int_abs of_int_less_numeral_power_cancel_iff)
  then have q: "f64_quantum (of_int i) = quantum_up 1074 \<bar>of_int i\<bar> 1"
    by (simp add: f64_quantum_def)
  obtain k where k: "quantum_up 1074 \<bar>real_of_int i\<bar> 1 = 1 / 2 ^ k"
    using quantum_up_power by blast
  have "of_int i / (1 / 2 ^ k) = (of_int (i * 2 ^ k) :: real)" by simp
  then have "round_half_even (of_int i / (1 / 2 ^ k)) = i * 2 ^ k"
    by (metis round_half_even_of_int)
  then show ?thesis
    unfolding f64_def q k by simp
qed

lemma quantum_down_bounds:
  "2 ^ 52 \<le> a \<Longrightarrow> 0 < q \<Longrightarrow>
   2 ^ 52 * quantum_down n a q \<le> a * q \<and> q \<le> quantum_down n a q"
proof (induction n arbitrary: a q)
  case 0
  then show ?case by simp
next
  case (Suc n)
  show ?case
  proof (cases "2 ^ 53 \<le> a")
    case True
    then have "2 ^ 52 \<le> a / 2" by simp
    from Suc.IH[OF this, of "2 * q"] Suc.prems True show ?thesis by simp
  next
    case False
    with Suc.prems show ?thesis by simp
  qed
qed

lemma round_half_even_ge_floor: "\<lfloor>x\<rfloor> \<le> round_half_even x"
  by (simp add: round_half_even_def Let_def)

lemma f64_large:
  assumes "2 ^ 53 \<le> x"
  shows "2 ^ 52 \<le> f64 x"
proof -
  let ?q = "quantum_down 971 x 1"
  have x: "\<bar>x\<bar> = x" using assms by (smt (verit) zero_le_power)
  have q: "f64_quantum x = ?q" using assms by (simp add: f64_quantum_def x)
  have b: "2 ^ 52 * ?q \<le> x * 1 \<and> 1 \<le> ?q"
    by (rule quantum_down_bounds) (use assms in auto)
  then have "2 ^ 52 \<le> x / ?q" by (simp add: pos_le_divide_eq)
  then have "(2 ^ 52 :: int) \<le> \<lfloor>x / ?q\<rfloor>" by (simp add: le_floor_iff)
  then have "(2 ^ 52 :: int) \<le> round_half_even (x / ?q)"
    using round_half_even_ge_floor[of "x / ?q"] by linarith
  then have "(2 ^ 52 :: real) \<le> of_int (round_half_even (x / ?q))"
    by (metis of_int_le_iff of_int_numeral of_int_power)
  then have "2 ^ 52 * 1 \<le> of_int (round_half_even (x / ?q)) * ?q"
    using b by (intro mult_mono) auto
  then show ?thesis by (simp add: f64_def q)
qed

lemma f64_0 [simp]: "f64 0 = 0"
  by (simp add: f64_def round_half_even_def)

lemmas f64_eval = f64_def f64_quantum_def quantum_up_unfold quantum_down_unfold round_half_even_def Let_def

lemma f64_1000 [simp]: "f64 1000 = 1000"
  using f64_of_int_small[of 1000] by simp

lemma f64_10 [simp]: "f64 10 = 10"
  using f64_of_int_small[of 10] by simp

lemma normalized_cap:
  assumes "0 \<le> c"
  shows "(if f64 (of_int c) > f64 (of_int maxCommitCountForNorm) then f64 (of_int maxCommitCountForNorm)
          else f64 (of_int c)) = of_int (min c 1000)"
proof (cases "c < 2 ^ 53")
  case True
  then have "f64 (of_int c) = of_int c" using assms by (intro f64_of_int_small) simp
  then show ?thesis by (simp add: maxCommitCountForNorm_def min_def)
next
  case False
  then have "(2 ^ 53 :: real) \<le> of_int c"
    by (metis not_less of_int_le_iff of_int_numeral of_int_power)
  then have "2 ^ 52 \<le> f64 (of_int c)" by (rule f64_large)
  moreover have "(1000::int) < c" using False by simp
  ultimately show ?thesis by (simp add: maxCommitCountForNorm_def min_def)
qed

subsection \<open>The aggregation\<close>

lemma commit_score_min:
  "0 \<le> c \<Longrightarrow> commit_score c = f64_mul (f64_div (of_int (min c 1000)) 1000) 10"
  using normalized_cap[of c] by (simp add: commit_score_def Let_def maxCommitCountForNorm_def)

lemma overall_score_spec:
  "0 \<le> c \<Longrightarrow>
   overall_score c \<lparr>TechnicalSophistication = t, MessageAppropriateness = m\<rparr> = spec_overall c t m"
  by (simp add: overall_score_def spec_overall_def commit_score_min commitCountWeight_def
      technicalScoreWeight_def messageScoreWeight_def)

lemma spec_overall_full: "spec_overall 1000 10 10 = 10"
  by (simp add: spec_overall_def f64_add_def f64_mul_def f64_div_def f64_eval)

lemma overall_score_full:
  "overall_score 1000 \<lparr>TechnicalSophistication = 10, MessageAppropriateness = 10\<rparr> = 10"
  using overall_score_spec[of 1000 10 10] spec_overall_full by simp

lemma spec_overall_zero: "spec_overall 0 0 0 = 0"
  by (simp add: spec_overall_def f64_add_def f64_mul_def f64_div_def)

subsection \<open>The loop body\<close>

lemma process_repo_failed:
  "GetRepositoryCommitAnalysisData fuel env org repo numRandomCommitsToAnalyze diffLinesLimit
     = Some (Inl err, tr) \<Longrightarrow>
   process_repo fuel env org repo =
     Some (\<lparr>Name = repo, CommitCount = - 1, TechnicalScore = 0, MessageScore = 0,
            OverallScore = 0, AnalyzedCommitsCount = 0, SampledCommits = []\<rparr>, tr)"
  by (simp add: process_repo_def)

lemma process_repo_empty:
  "GetRepositoryCommitAnalysisData fuel env org repo numRandomCommitsToAnalyze diffLinesLimit
     = Some (Inr (0, sampled), tr) \<Longrightarrow>
   process_repo fuel env org repo =
     Some (\<lparr>Name = repo, CommitCount = 0, TechnicalScore = 0, MessageScore = 0,
            OverallScore = 0, AnalyzedCommitsCount = 0, SampledCommits = []\<rparr>, tr)"
  by (simp add: process_repo_def)

lemma process_repo_scored:
  "GetRepositoryCommitAnalysisData fuel env org repo numRandomCommitsToAnalyze diffLinesLimit
     = Some (Inr (c, sampled), tr) \<Longrightarrow> c \<noteq> 0 \<Longrightarrow>
   AnalyzeCommitsWithGemini (generateContent env) repo c sampled = (Inr geminiEval, tr') \<Longrightarrow>
   process_repo fuel env org repo =
     Some (\<lparr>Name = repo, CommitCount = c,
            TechnicalScore = TechnicalSophistication geminiEval,
            MessageScore = MessageAppropriateness geminiEval,
            OverallScore = overall_score c geminiEval,
            AnalyzedCommitsCount = int (length sampled), SampledCommits = sampled\<rparr>, tr @ tr')"
  by (simp add: process_repo_def)

lemma process_repo_unscored:
  "GetRepositoryCommitAnalysisData fuel env org repo numRandomCommitsToAnalyze diffLinesLimit
     = Some (Inr (c, sampled), tr) \<Longrightarrow> c \<noteq> 0 \<Longrightarrow>
   AnalyzeCommitsWithGemini (generateContent env) repo c sampled = (Inl e, tr') \<Longrightarrow>
   process_repo fuel env org repo =
     Some (\<lparr>Name = repo, CommitCount = c, TechnicalScore = 0, MessageScore = 0,
            OverallScore = 0,
            AnalyzedCommitsCount = int (length sampled), SampledCommits = sampled\<rparr>, tr @ tr')"
  by (simp add: process_repo_def)

lemma AnalyzeCommitsWithGemini_zero:
  "AnalyzeCommitsWithGemini gen repo 0 sampled
     = (Inr \<lparr>TechnicalSophistication = 0, MessageAppropriateness = 0\<rparr>, [])"
  by (simp add: AnalyzeCommitsWithGemini_def)

text \<open>
  Claim C3. For a repository with commit count \<open>c \<ge> 0\<close> whose evaluation succeeds
  with the scores \<open>t\<close> and \<open>m\<close>, the recorded overall score is
  \<open>(min(c, 1000) / 1000 * 10) * 0.2 + t * 0.4 + m * 0.4\<close> in \<^verbatim>\<open>float64\<close>
  arithmetic; for \<open>c = 1000\<close>, \<open>t = m = 10\<close> the formula gives exactly 10, and for
  \<open>c = 0\<close> the recorded overall score is 0.
\<close>

theorem overall_score_formula:
  assumes "GetRepositoryCommitAnalysisData fuel env org repo numRandomCommitsToAnalyze diffLinesLimit
             = Some (Inr (c, sampled), tr)"
    and "0 \<le> c"
    and "AnalyzeCommitsWithGemini (generateContent env) repo c sampled
           = (Inr \<lparr>TechnicalSophistication = t, MessageAppropriateness = m\<rparr>, tr')"
  shows "map_option (\<lambda>(r, trace). OverallScore r) (process_repo fuel env org repo)
           = Some (spec_overall c t m)
         \<and> (c = 0 \<longrightarrow> map_option (\<lambda>(r, trace). OverallScore r) (process_repo fuel env org repo) = Some 0)
         \<and> spec_overall 1000 10 10 = 10
         \<and> overall_score 1000 \<lparr>TechnicalSophistication = 10, MessageAppropriateness = 10\<rparr> = 10"
proof (cases "c = 0")
  case True
  then have "t = 0 \<and> m = 0" using assms(3) by (simp add: AnalyzeCommitsWithGemini_zero)
  then show ?thesis
    using True process_repo_empty[of fuel env org repo sampled tr] assms(1)
    by (simp add: spec_overall_zero spec_overall_full overall_score_full)
next
  case False
  then show ?thesis
    using process_repo_scored[OF assms(1) False assms(3)] assms(2)
    by (simp add: overall_score_spec spec_overall_full overall_score_full)
qed

lemma ex_analysis:
  "GetRepositoryCommitAnalysisData 3 ex_env ''acme'' ''tools'' numRandomCommitsToAnalyze diffLinesLimit
     = Some (Inr (6, ex_sampled),
             map EvGetCommit [''s2'', ''s3'', ''s4'', ''s5'', ''s6''])"
  by code_simp


lemma ex_evaluation:
  "AnalyzeCommitsWithGemini (generateContent ex_env) ''tools'' 6
     ex_sampled
     = (Inr \<lparr>TechnicalSophistication = 10, MessageAppropriateness = 10\<rparr>, [EvGenerateContent ''tools''])"
  by code_simp

theorem overall_score_formula_witness:
  "GetRepositoryCommitAnalysisData 3 ex_env ''acme'' ''tools'' numRandomCommitsToAnalyze diffLinesLimit
     = Some (Inr (6, ex_sampled),
             map EvGetCommit [''s2'', ''s3'', ''s4'', ''s5'', ''s6''])
   \<and> (0::int) \<le> 6
   \<and> AnalyzeCommitsWithGemini (generateContent ex_env) ''tools'' 6
         ex_sampled
       = (Inr \<lparr>TechnicalSophistication = 10, MessageAppropriateness = 10\<rparr>, [EvGenerateContent ''tools''])
   \<and> map_option (\<lambda>(r, trace). OverallScore r) (process_repo 3 ex_env ''acme'' ''tools'')
       = Some (spec_overall 6 10 10)
   \<and> GetRepositoryCommitAnalysisData 3 ex_env_empty ''acme'' ''new'' numRandomCommitsToAnalyze diffLinesLimit
       = Some (Inr (0, []), [])
   \<and> map_option (\<lambda>(r, trace). OverallScore r) (process_repo 3 ex_env_empty ''acme'' ''new'') = Some 0"
proof -
  have 6: "(0::int) \<le> 6" and 0: "(0::int) \<le> 0" by simp_all
  have e: "GetRepositoryCommitAnalysisData 3 ex_env_empty ''acme'' ''new'' numRandomCommitsToAnalyze diffLinesLimit
       = Some (Inr (0, []), [])"
    by code_simp
  have z: "AnalyzeCommitsWithGemini (generateContent ex_env_empty) ''new'' 0 []
       = (Inr \<lparr>TechnicalSophistication = 0, MessageAppropriateness = 0\<rparr>, [])"
    by (rule AnalyzeCommitsWithGemini_zero)
  from overall_score_formula[OF ex_analysis 6 ex_evaluation] overall_score_formula[OF e 0 z]
    ex_analysis ex_evaluation e
  show ?thesis by simp
qed

subsection \<open>Empty repositories\<close>

lemma sample_commits_total:
  "sample_commits fuel env cnt num lm = Some (Inr (c, cs), tr) \<Longrightarrow> c = cnt"
  by (auto simp: sample_commits_def Let_def split: option.splits if_splits prod.splits)

lemma sample_commits_no_error:
  "sample_commits fuel env cnt num lm \<noteq> Some (Inl e, tr)"
  by (auto simp: sample_commits_def Let_def split: option.splits if_splits prod.splits)

lemma analysis_zero:
  assumes "GetRepositoryCommitAnalysisData fuel env org repo num lm = Some (Inr (0, sampled), tr)"
  shows "sampled = [] \<and> tr = []"
  using assms sample_commits_total[of fuel env _ num lm 0 sampled tr]
  by (auto simp: GetRepositoryCommitAnalysisData_def Let_def split: option.splits sum.splits if_splits)

text \<open>
  Claim C4. For every repository whose commit count is 0, the recorded result has the
  overall, technical and message scores 0 and no analyzed commit, and the run makes no
  call to a collaborator for it after the counting: the trace is empty, so the evaluator
  is not invoked. (\<^verbatim>\<open>AnalyzeCommitsWithGemini\<close> itself returns the zero scores for a
  count of 0 without calling the model.)
\<close>

theorem empty_repository_short_circuit:
  assumes "GetRepositoryCommitAnalysisData fuel env org repo numRandomCommitsToAnalyze diffLinesLimit
             = Some (Inr (0, sampled), tr)"
  shows "process_repo fuel env org repo =
           Some (\<lparr>Name = repo, CommitCount = 0, TechnicalScore = 0, MessageScore = 0,
                  OverallScore = 0, AnalyzedCommitsCount = 0, SampledCommits = []\<rparr>, [])
         \<and> AnalyzeCommitsWithGemini gen repo 0 commits
             = (Inr \<lparr>TechnicalSophistication = 0, MessageAppropriateness = 0\<rparr>, [])"
  using process_repo_empty[OF assms] analysis_zero[OF assms]
  by (simp add: AnalyzeCommitsWithGemini_zero)

theorem empty_repository_short_circuit_witness:
  "GetRepositoryCommitAnalysisData 3 ex_env_empty ''acme'' ''new'' numRandomCommitsToAnalyze diffLinesLimit
     = Some (Inr (0, []), [])
   \<and> process_repo 3 ex_env_empty ''acme'' ''new'' =
       Some (\<lparr>Name = ''new'', CommitCount = 0, TechnicalScore = 0, MessageScore = 0,
              OverallScore = 0, AnalyzedCommitsCount = 0, SampledCommits = []\<rparr>, [])"
proof -
  have e: "GetRepositoryCommitAnalysisData 3 ex_env_empty ''acme'' ''new'' numRandomCommitsToAnalyze diffLinesLimit
       = Some (Inr (0, []), [])"
    by code_simp
  from empty_repository_short_circuit[OF e] e show ?thesis by simp
qed

subsection \<open>Fetching the details\<close>

lemma fetch_details_fst:
  "fst (fetch_details getc lm shas)
     = map (\<lambda>sha. package_commit lm sha (projr (getc sha))) (filter (\<lambda>sha. \<not> isl (getc sha)) shas)"
  by (induction shas) (auto split: prod.splits sum.splits)

lemma fetch_details_snd: "snd (fetch_details getc lm shas) = map EvGetCommit shas"
  by (induction shas) (auto split: prod.splits sum.splits)

lemma filter_split_length:
  "length (filter (\<lambda>x. \<not> P x) xs) = length xs - length (filter P xs)"
  using sum_length_filter_compl[of P xs] by simp

text \<open>
  Claim C7. The packaged commits are those of the selected SHAs whose detail could be
  fetched, in the order of the selection; every selected SHA is requested once, whether
  its fetch fails or not. If the fetch fails for exactly one of five selected SHAs, four
  commits are packaged. Sampling never returns an error: with the listed SHAs it returns
  the count and the packaged commits.
\<close>

theorem fetch_details_skips_failures:
  "fst (fetch_details getc lm shas)
     = map (\<lambda>sha. package_commit lm sha (projr (getc sha))) (filter (\<lambda>sha. \<not> isl (getc sha)) shas)
   \<and> snd (fetch_details getc lm shas) = map EvGetCommit shas
   \<and> (length shas = 5 \<and> length (filter (\<lambda>sha. isl (getc sha)) shas) = 1
        \<longrightarrow> length (fst (fetch_details getc lm shas)) = 4)
   \<and> (list_loop fuel (sha_pass env) 0 [] cnt num = Some (Some listed) \<and> listed \<noteq> []
        \<longrightarrow> sample_commits fuel env cnt num lm
            = Some (Inr (cnt, fst (fetch_details (getCommit env) lm (select_random_SHAs (entropy env) listed num))),
                    map EvGetCommit (select_random_SHAs (entropy env) listed num)))
   \<and> sample_commits fuel env cnt num lm \<noteq> Some (Inl e, tr)"
proof -
  have "length (fst (fetch_details getc lm shas)) = 4"
    if "length shas = 5 \<and> length (filter (\<lambda>sha. isl (getc sha)) shas) = 1"
    using that by (simp add: fetch_details_fst filter_split_length)
  moreover have "sample_commits fuel env cnt num lm
            = Some (Inr (cnt, fst (fetch_details (getCommit env) lm (select_random_SHAs (entropy env) listed num))),
                    map EvGetCommit (select_random_SHAs (entropy env) listed num))"
    if "list_loop fuel (sha_pass env) 0 [] cnt num = Some (Some listed) \<and> listed \<noteq> []"
    using that fetch_details_snd[of "getCommit env" lm "select_random_SHAs (entropy env) listed num"]
    by (auto simp: sample_commits_def Let_def split: prod.splits)
  ultimately show ?thesis
    using fetch_details_fst fetch_details_snd sample_commits_no_error by blast
qed

lemma ex_listing:
  "list_loop 3 (sha_pass ex_env) 0 [] 6 5 = Some (Some [''s1'', ''s2'', ''s3'', ''s4'', ''s5'', ''s6''])"
  by code_simp

lemma ex_selection:
  "select_random_SHAs (entropy ex_env) [''s1'', ''s2'', ''s3'', ''s4'', ''s5'', ''s6''] 5
     = [''s2'', ''s3'', ''s4'', ''s5'', ''s6'']"
  by code_simp

theorem fetch_details_skips_failures_witness:
  "length [''s2'', ''s3'', ''s4'', ''s5'', ''s6''] = 5
   \<and> length (filter (\<lambda>sha. isl (getCommit ex_env sha)) [''s2'', ''s3'', ''s4'', ''s5'', ''s6'']) = 1
   \<and> length (fst (fetch_details (getCommit ex_env) 100 [''s2'', ''s3'', ''s4'', ''s5'', ''s6''])) = 4
   \<and> list_loop 3 (sha_pass ex_env) 0 [] 6 5 = Some (Some [''s1'', ''s2'', ''s3'', ''s4'', ''s5'', ''s6''])
   \<and> sample_commits 3 ex_env 6 5 100
       = Some (Inr (6, ex_sampled),
               map EvGetCommit [''s2'', ''s3'', ''s4'', ''s5'', ''s6''])"
proof -
  let ?sel = "[''s2'', ''s3'', ''s4'', ''s5'', ''s6'']"
  have n: "length ?sel = 5" by simp
  have f: "length (filter (\<lambda>sha. isl (getCommit ex_env sha)) ?sel) = 1"
    by (simp add: ex_env_def)
  have d: "fst (fetch_details (getCommit ex_env) 100 ?sel)
      = ex_sampled"
    by (simp add: ex_env_def ex_sampled_def)
  note t = fetch_details_skips_failures[of "getCommit ex_env" 100 ?sel 3 ex_env 6 5
      "[''s1'', ''s2'', ''s3'', ''s4'', ''s5'', ''s6'']"]
  have 4: "length (fst (fetch_details (getCommit ex_env) 100 ?sel)) = 4"
    using t n f by blast
  have s: "sample_commits 3 ex_env 6 5 100
       = Some (Inr (6, ex_sampled),
               map EvGetCommit ?sel)"
    using t ex_listing ex_selection d by simp
  show ?thesis using n f 4 ex_listing s by simp
qed

subsection \<open>The number of analyzed commits\<close>

lemma page_SHAs_length: "length (page_SHAs cs) \<le> length cs"
  by (induction cs) (auto simp: page_SHAs_def split: option.splits)

lemma count_loop_ge:
  "count_loop f api ow rp page acc = Some (Inr n) \<Longrightarrow> n = 0 \<or> acc \<le> n"
proof (induction f arbitrary: page acc)
  case 0
  then show ?case by simp
next
  case (Suc f)
  show ?case
  proof (cases "api page")
    case (ListErr st e)
    with Suc.prems show ?thesis by (simp split: if_splits)
  next
    case (ListOk cs np)
    show ?thesis
    proof (cases "np = 0")
      case True
      with Suc.prems ListOk show ?thesis by (simp add: Let_def)
    next
      case False
      with Suc.prems ListOk have "count_loop f api ow rp np (acc + int (length cs)) = Some (Inr n)"
        by (simp add: Let_def)
      from Suc.IH[OF this] show ?thesis by auto
    qed
  qed
qed

lemma list_loop_le_count:
  "count_loop f1 api ow rp page acc = Some (Inr n) \<Longrightarrow>
   list_loop f2 api page shas tc num = Some (Some listed) \<Longrightarrow>
   n = 0 \<or> int (length listed) - int (length shas) \<le> n - acc"
proof (induction f1 arbitrary: page acc f2 shas)
  case 0
  then show ?case by simp
next
  case (Suc f1)
  obtain f2' where f2: "f2 = Suc f2'"
    using Suc.prems(2) by (cases f2) auto
  show ?case
  proof (cases "api page")
    case (ListErr st e)
    with Suc.prems(2) f2 show ?thesis by simp
  next
    case (ListOk cs np)
    let ?shas = "shas @ page_SHAs cs"
    have len: "int (length ?shas) - int (length shas) \<le> int (length cs)"
      using page_SHAs_length[of cs] by simp
    show ?thesis
    proof (cases "np = 0")
      case True
      with Suc.prems ListOk f2 have "n = acc + int (length cs)" "listed = ?shas"
        by (simp_all add: Let_def)
      with len show ?thesis by simp
    next
      case False
      with Suc.prems(1) ListOk have c: "count_loop f1 api ow rp np (acc + int (length cs)) = Some (Inr n)"
        by (simp add: Let_def)
      show ?thesis
      proof (cases "tc \<le> int (length ?shas) \<or> (500 < length ?shas \<and> num \<le> 10)")
        case True
        with Suc.prems(2) ListOk f2 False have "listed = ?shas"
          by (auto simp: Let_def split: if_splits)
        with len count_loop_ge[OF c] show ?thesis by auto
      next
        case stop: False
        with Suc.prems(2) ListOk f2 False have "list_loop f2' api np ?shas tc num = Some (Some listed)"
          by (auto simp: Let_def split: if_splits)
        from Suc.IH[OF c this] len show ?thesis by auto
      qed
    qed
  qed
qed

lemma fetch_details_length: "length (fst (fetch_details getc lm shas)) \<le> length shas"
  by (simp add: fetch_details_fst)

lemma select_random_SHAs_length:
  "length (select_random_SHAs rd shas num) = min (nat num) (length shas)"
  by (simp add: select_random_SHAs_take shuffled_indices_length min.commute)

lemma sample_commits_bound:
  assumes "sample_commits fuel env tc num lm = Some (Inr (c, cs), tr)"
  shows "int (length cs) \<le> max 0 num
         \<and> (cs = [] \<or> (\<exists>listed. list_loop fuel (sha_pass env) 0 [] tc num = Some (Some listed)
                          \<and> length cs \<le> length listed))"
proof (cases "list_loop fuel (sha_pass env) 0 [] tc num")
  case None
  with assms show ?thesis by (simp add: sample_commits_def)
next
  case (Some res)
  show ?thesis
  proof (cases res)
    case None
    with Some assms show ?thesis by (simp add: sample_commits_def)
  next
    case (Some listed)
    show ?thesis
    proof (cases "listed = []")
      case True
      with Some \<open>list_loop fuel (sha_pass env) 0 [] tc num = Some res\<close> assms
      show ?thesis by (simp add: sample_commits_def)
    next
      case False
      let ?sel = "select_random_SHAs (entropy env) listed num"
      have cs: "cs = fst (fetch_details (getCommit env) lm ?sel)"
        using False Some \<open>list_loop fuel (sha_pass env) 0 [] tc num = Some res\<close> assms
        by (auto simp: sample_commits_def Let_def split: prod.splits)
      have "length cs \<le> min (nat num) (length listed)"
        unfolding cs using fetch_details_length[of "getCommit env" lm ?sel]
        by (simp add: select_random_SHAs_length)
      then show ?thesis
        using Some \<open>list_loop fuel (sha_pass env) 0 [] tc num = Some res\<close> by auto
    qed
  qed
qed

lemma analysis_bound:
  assumes "GetRepositoryCommitAnalysisData fuel env org repo num lm = Some (Inr (c, cs), tr)"
  shows "int (length cs) \<le> max 0 num
         \<and> (sha_pass env = count_pass env \<longrightarrow> int (length cs) \<le> c)"
proof (cases "countAllCommits fuel (count_pass env) org repo")
  case None
  with assms show ?thesis by (simp add: GetRepositoryCommitAnalysisData_def)
next
  case (Some counted)
  show ?thesis
  proof (cases counted)
    case (Inl err)
    with Some assms have "cs = []"
      by (auto simp: GetRepositoryCommitAnalysisData_def Let_def split: if_splits)
    with Some Inl assms show ?thesis
      by (auto simp: GetRepositoryCommitAnalysisData_def Let_def split: if_splits)
  next
    case (Inr n)
    show ?thesis
    proof (cases "n = 0")
      case True
      with Some Inr assms show ?thesis by (simp add: GetRepositoryCommitAnalysisData_def)
    next
      case False
      with Some Inr assms have s: "sample_commits fuel env n num lm = Some (Inr (c, cs), tr)"
        by (simp add: GetRepositoryCommitAnalysisData_def)
      then have cn: "c = n" by (rule sample_commits_total)
      have cnt: "count_loop fuel (count_pass env) org repo 0 0 = Some (Inr n)"
        using Some Inr by (simp add: countAllCommits_def)
      from count_loop_ge[OF cnt] False have n0: "0 \<le> n" by simp
      from sample_commits_bound[OF s] have b: "int (length cs) \<le> max 0 num"
        and l: "cs = [] \<or> (\<exists>listed. list_loop fuel (sha_pass env) 0 [] n num = Some (Some listed)
                          \<and> length cs \<le> length listed)"
        by simp_all
      have "int (length cs) \<le> c" if same: "sha_pass env = count_pass env"
      proof (cases "cs = []")
        case True
        then show ?thesis using cn n0 by simp
      next
        case ne: False
        with l obtain listed where ll: "list_loop fuel (count_pass env) 0 [] n num = Some (Some listed)"
          and le: "length cs \<le> length listed"
          using same by auto
        from list_loop_le_count[OF cnt ll] False have "int (length listed) \<le> n" by simp
        with le cn show ?thesis by simp
      qed
      with b show ?thesis by simp
    qed
  qed
qed

text \<open>
  Claim C9, amended. In every repository result the number of analyzed commits is at
  least 0 and at most the sample size 5. It is at most
  \<open>min(sampleTargetSize, commitCount)\<close> when the recorded commit count is not the
  sentinel \<open>-1\<close> and the listing answered the SHA pass as it answered the counting
  pass. (The claim as stated fails for a repository recorded with the sentinel, where
  \<open>0 > min(5, -1)\<close>, and for a repository that gains commits between the two passes.)
\<close>

theorem analyzed_count_bound:
  assumes "process_repo fuel env org repo = Some (r, tr)"
  shows "0 \<le> AnalyzedCommitsCount r
         \<and> AnalyzedCommitsCount r \<le> numRandomCommitsToAnalyze
         \<and> (CommitCount r \<noteq> - 1 \<and> sha_pass env = count_pass env
              \<longrightarrow> AnalyzedCommitsCount r \<le> min numRandomCommitsToAnalyze (CommitCount r))"
proof (cases "GetRepositoryCommitAnalysisData fuel env org repo numRandomCommitsToAnalyze diffLinesLimit")
  case None
  with assms show ?thesis by (simp add: process_repo_def)
next
  case (Some res)
  obtain out tr0 where res: "res = (out, tr0)" by (cases res)
  show ?thesis
  proof (cases out)
    case (Inl e)
    with Some res assms show ?thesis
      by (auto simp: process_repo_def numRandomCommitsToAnalyze_def)
  next
    case (Inr p)
    obtain c cs where p: "p = (c, cs)" by (cases p)
    have a: "GetRepositoryCommitAnalysisData fuel env org repo numRandomCommitsToAnalyze diffLinesLimit
        = Some (Inr (c, cs), tr0)"
      using Some res Inr p by simp
    show ?thesis
    proof (cases "c = 0")
      case True
      with a assms show ?thesis
        by (auto simp: process_repo_def numRandomCommitsToAnalyze_def)
    next
      case False
      from analysis_bound[OF a] have b: "int (length cs) \<le> numRandomCommitsToAnalyze"
        and l: "sha_pass env = count_pass env \<longrightarrow> int (length cs) \<le> c"
        by (simp_all add: numRandomCommitsToAnalyze_def)
      have r: "AnalyzedCommitsCount r = int (length cs) \<and> CommitCount r = c"
        using a False assms
        by (auto simp: process_repo_def split: prod.splits sum.splits)
      with b l show ?thesis by auto
    qed
  qed
qed

lemma ex_process:
  "process_repo 3 ex_env ''acme'' ''tools''
     = Some (\<lparr>Name = ''tools'', CommitCount = 6, TechnicalScore = 10, MessageScore = 10,
              OverallScore = overall_score 6 \<lparr>TechnicalSophistication = 10, MessageAppropriateness = 10\<rparr>,
              AnalyzedCommitsCount = 4,
              SampledCommits = ex_sampled\<rparr>,
             map EvGetCommit [''s2'', ''s3'', ''s4'', ''s5'', ''s6''] @ [EvGenerateContent ''tools''])"
  using process_repo_scored[OF ex_analysis _ ex_evaluation] by (simp add: ex_sampled_def)

theorem analyzed_count_bound_witness:
  "process_repo 3 ex_env ''acme'' ''tools''
     = Some (\<lparr>Name = ''tools'', CommitCount = 6, TechnicalScore = 10, MessageScore = 10,
              OverallScore = overall_score 6 \<lparr>TechnicalSophistication = 10, MessageAppropriateness = 10\<rparr>,
              AnalyzedCommitsCount = 4,
              SampledCommits = ex_sampled\<rparr>,
             map EvGetCommit [''s2'', ''s3'', ''s4'', ''s5'', ''s6''] @ [EvGenerateContent ''tools''])
   \<and> (6::int) \<noteq> - 1 \<and> sha_pass ex_env = count_pass ex_env
   \<and> (4::int) \<le> min numRandomCommitsToAnalyze 6"
proof -
  have s: "sha_pass ex_env = count_pass ex_env" by (simp add: ex_env_def)
  from analyzed_count_bound[OF ex_process] s ex_process show ?thesis by simp
qed

theorem analyzed_count_bound_counterexample:
  "process_repo 3 ex_env_down ''acme'' ''tools''
     = Some (\<lparr>Name = ''tools'', CommitCount = - 1, TechnicalScore = 0, MessageScore = 0,
              OverallScore = 0, AnalyzedCommitsCount = 0, SampledCommits = []\<rparr>, [])
   \<and> \<not> (0::int) \<le> min numRandomCommitsToAnalyze (- 1)
   \<and> process_repo 3 ex_env_grown ''acme'' ''tools''
     = Some (\<lparr>Name = ''tools'', CommitCount = 1, TechnicalScore = 10, MessageScore = 10,
              OverallScore = overall_score 1 \<lparr>TechnicalSophistication = 10, MessageAppropriateness = 10\<rparr>,
              AnalyzedCommitsCount = 3, SampledCommits = ex_sampled_grown\<rparr>,
             [EvGetCommit ''s4'', EvGetCommit ''s1'', EvGetCommit ''s3'', EvGenerateContent ''tools''])
   \<and> \<not> (3::int) \<le> min numRandomCommitsToAnalyze 1"
proof -
  have d: "GetRepositoryCommitAnalysisData 3 ex_env_down ''acme'' ''tools'' numRandomCommitsToAnalyze diffLinesLimit
      = Some (Inl (CountingFailed (count_error_text ''acme'' ''tools'' ''dial tcp: i/o timeout'')), [])"
    by code_simp
  have g: "GetRepositoryCommitAnalysisData 3 ex_env_grown ''acme'' ''tools'' numRandomCommitsToAnalyze diffLinesLimit
      = Some (Inr (1, ex_sampled_grown),
              map EvGetCommit [''s4'', ''s1'', ''s3''])"
    by code_simp
  have e: "AnalyzeCommitsWithGemini (generateContent ex_env_grown) ''tools'' 1
         (ex_sampled_grown)
       = (Inr \<lparr>TechnicalSophistication = 10, MessageAppropriateness = 10\<rparr>, [EvGenerateContent ''tools''])"
    by code_simp
  show ?thesis
    using process_repo_failed[OF d] process_repo_scored[OF g _ e]
    by (simp add: numRandomCommitsToAnalyze_def ex_sampled_grown_def)
qed

subsection \<open>The parsed scores\<close>

lemma decode_members_absent_message:
  "Some Field_MessageAppropriateness \<notin> set (map (\<lambda>(k, v). field_of_key k) ms) \<Longrightarrow>
   decode_members ms score = Inr score' \<Longrightarrow>
   MessageAppropriateness score' = MessageAppropriateness score"
proof (induction ms arbitrary: score)
  case Nil
  then show ?case by simp
next
  case (Cons kv ms)
  obtain k v where kv: "kv = (k, v)" by (cases kv)
  show ?case
  proof (cases "field_of_key k")
    case None
    with Cons kv show ?thesis by simp
  next
    case (Some f)
    with Cons.prems(1) kv have f: "f = Field_TechnicalSophistication" by (cases f) auto
    show ?thesis
    proof (cases v)
      case JNull
      with Cons kv Some show ?thesis by simp
    next
      case (JNumber lit)
      with Cons.prems(2) kv Some obtain i where i: "parse_int64 lit = Some i"
        and d: "decode_members ms (set_field f i score) = Inr score'"
        by (auto split: option.splits)
      from Cons.IH[OF _ d] Cons.prems(1) kv
      show ?thesis by (simp add: f set_field_def)
    qed (use Cons.prems(2) kv Some in auto)
  qed
qed

lemma decode_members_absent_technical:
  "Some Field_TechnicalSophistication \<notin> set (map (\<lambda>(k, v). field_of_key k) ms) \<Longrightarrow>
   decode_members ms score = Inr score' \<Longrightarrow>
   TechnicalSophistication score' = TechnicalSophistication score"
proof (induction ms arbitrary: score)
  case Nil
  then show ?case by simp
next
  case (Cons kv ms)
  obtain k v where kv: "kv = (k, v)" by (cases kv)
  show ?case
  proof (cases "field_of_key k")
    case None
    with Cons kv show ?thesis by simp
  next
    case (Some f)
    with Cons.prems(1) kv have f: "f = Field_MessageAppropriateness" by (cases f) auto
    show ?thesis
    proof (cases v)
      case JNull
      with Cons kv Some show ?thesis by simp
    next
      case (JNumber lit)
      with Cons.prems(2) kv Some obtain i where i: "parse_int64 lit = Some i"
        and d: "decode_members ms (set_field f i score) = Inr score'"
        by (auto split: option.splits)
      from Cons.IH[OF _ d] Cons.prems(1) kv
      show ?thesis by (simp add: f set_field_def)
    qed (use Cons.prems(2) kv Some in auto)
  qed
qed

lemma AnalyzeCommitsWithGemini_text:
  "totalCommitCount \<noteq> 0 \<Longrightarrow> sampledCommits \<noteq> [] \<Longrightarrow>
   response_text (gen repo totalCommitCount sampledCommits) = Inr t \<Longrightarrow>
   AnalyzeCommitsWithGemini gen repo totalCommitCount sampledCommits
     = (parse_gemini_response t, [EvGenerateContent repo])"
  by (simp add: AnalyzeCommitsWithGemini_def)

text \<open>
  Claim C5, amended. Let the model answer with a text. If no structured data is found in
  the text, the evaluation fails with an error, and so it does if the extracted text is
  not JSON that decodes into the score record. The presence of the two fields is not
  checked: when the extracted object decodes, the evaluation succeeds with the decoded
  scores, and a field that no key of the object names is 0 in them.
\<close>

theorem evaluation_parse_outcomes:
  assumes "totalCommitCount \<noteq> 0" and "sampledCommits \<noteq> []"
    and "response_text (gen repo totalCommitCount sampledCommits) = Inr t"
  shows "(extract_json t = None \<longrightarrow>
            AnalyzeCommitsWithGemini gen repo totalCommitCount sampledCommits
              = (Inl NoJSONFound, [EvGenerateContent repo]))
       \<and> (extract_json t = Some x \<and> json_Unmarshal x = Inl e \<longrightarrow>
            AnalyzeCommitsWithGemini gen repo totalCommitCount sampledCommits
              = (Inl (JSONParseFailed e), [EvGenerateContent repo]))
       \<and> (extract_json t = Some x \<and> parse_json x = Some (JObject ms)
            \<and> json_Unmarshal x = Inr score \<longrightarrow>
            AnalyzeCommitsWithGemini gen repo totalCommitCount sampledCommits
              = (Inr score, [EvGenerateContent repo])
            \<and> (Some Field_MessageAppropriateness \<notin> set (map (\<lambda>(k, v). field_of_key k) ms)
                 \<longrightarrow> MessageAppropriateness score = 0)
            \<and> (Some Field_TechnicalSophistication \<notin> set (map (\<lambda>(k, v). field_of_key k) ms)
                 \<longrightarrow> TechnicalSophistication score = 0))"
proof -
  note a = AnalyzeCommitsWithGemini_text[of totalCommitCount sampledCommits gen repo t, OF assms]
  have 1: "AnalyzeCommitsWithGemini gen repo totalCommitCount sampledCommits
              = (Inl NoJSONFound, [EvGenerateContent repo])" if "extract_json t = None"
    using that by (simp add: a parse_gemini_response_def)
  have 2: "AnalyzeCommitsWithGemini gen repo totalCommitCount sampledCommits
              = (Inl (JSONParseFailed e), [EvGenerateContent repo])"
    if "extract_json t = Some x \<and> json_Unmarshal x = Inl e"
    using that by (simp add: a parse_gemini_response_def)
  have 3: "AnalyzeCommitsWithGemini gen repo totalCommitCount sampledCommits
              = (Inr score, [EvGenerateContent repo])"
    if "extract_json t = Some x \<and> json_Unmarshal x = Inr score"
    using that by (simp add: a parse_gemini_response_def)
  have d: "decode_members ms \<lparr>TechnicalSophistication = 0, MessageAppropriateness = 0\<rparr> = Inr score"
    if "parse_json x = Some (JObject ms) \<and> json_Unmarshal x = Inr score"
    using that by (auto simp: json_Unmarshal_def)
  have 4: "MessageAppropriateness score = 0"
    if "parse_json x = Some (JObject ms) \<and> json_Unmarshal x = Inr score"
      and "Some Field_MessageAppropriateness \<notin> set (map (\<lambda>(k, v). field_of_key k) ms)"
    using decode_members_absent_message[OF that(2) d[OF that(1)]] by simp
  have 5: "TechnicalSophistication score = 0"
    if "parse_json x = Some (JObject ms) \<and> json_Unmarshal x = Inr score"
      and "Some Field_TechnicalSophistication \<notin> set (map (\<lambda>(k, v). field_of_key k) ms)"
    using decode_members_absent_technical[OF that(2) d[OF that(1)]] by simp
  show ?thesis using 1 2 3 4 5 by blast
qed

lemma ex_one_field_parsed:
  \<open>extract_json ex_answer_one_field = Some ex_answer_one_field
   \<and> parse_json ex_answer_one_field = Some (JObject [(''technical_sophistication'', JNumber ''7'')])
   \<and> json_Unmarshal ex_answer_one_field = Inr \<lparr>TechnicalSophistication = 7, MessageAppropriateness = 0\<rparr>
   \<and> Some Field_MessageAppropriateness
        \<notin> set (map (\<lambda>(k, v). field_of_key k) [(''technical_sophistication'', JNumber ''7'')])\<close>
  by code_simp

theorem evaluation_parse_outcomes_counterexample:
  \<open>ex_answer_one_field = ''{"technical_sophistication": 7}''
   \<and> parse_json ex_answer_one_field = Some (JObject [(''technical_sophistication'', JNumber ''7'')])
   \<and> AnalyzeCommitsWithGemini (generateContent ex_env_one_field) ''tools'' 6 ex_sampled
      = (Inr \<lparr>TechnicalSophistication = 7, MessageAppropriateness = 0\<rparr>, [EvGenerateContent ''tools''])
   \<and> process_repo 3 ex_env_one_field ''acme'' ''tools''
      = Some (\<lparr>Name = ''tools'', CommitCount = 6, TechnicalScore = 7, MessageScore = 0,
               OverallScore = overall_score 6 \<lparr>TechnicalSophistication = 7, MessageAppropriateness = 0\<rparr>,
               AnalyzedCommitsCount = 4, SampledCommits = ex_sampled\<rparr>,
              [EvGetCommit ''s2'', EvGetCommit ''s3'', EvGetCommit ''s4'', EvGetCommit ''s5'',
               EvGetCommit ''s6'', EvGenerateContent ''tools''])\<close>
proof -
  have a: "GetRepositoryCommitAnalysisData 3 ex_env_one_field ''acme'' ''tools'' numRandomCommitsToAnalyze diffLinesLimit
     = Some (Inr (6, ex_sampled),
             map EvGetCommit [''s2'', ''s3'', ''s4'', ''s5'', ''s6''])"
    by code_simp
  have e: "AnalyzeCommitsWithGemini (generateContent ex_env_one_field) ''tools'' 6
        ex_sampled
      = (Inr \<lparr>TechnicalSophistication = 7, MessageAppropriateness = 0\<rparr>, [EvGenerateContent ''tools''])"
    by code_simp
  show ?thesis
    using process_repo_scored[OF a _ e] e ex_one_field_parsed
    by (simp add: ex_answer_one_field_def ex_sampled_def)
qed

theorem evaluation_parse_outcomes_witness:
  \<open>(6::int) \<noteq> 0 \<and> ex_sampled \<noteq> []
   \<and> extract_json ''The commits look fine.'' = None
   \<and> AnalyzeCommitsWithGemini (generateContent ex_env_prose) ''tools'' 6
        ex_sampled
      = (Inl NoJSONFound, [EvGenerateContent ''tools''])
   \<and> extract_json ex_answer_one_field = Some ex_answer_one_field
   \<and> parse_json ex_answer_one_field = Some (JObject [(''technical_sophistication'', JNumber ''7'')])
   \<and> json_Unmarshal ex_answer_one_field = Inr \<lparr>TechnicalSophistication = 7, MessageAppropriateness = 0\<rparr>
   \<and> AnalyzeCommitsWithGemini (generateContent ex_env_one_field) ''tools'' 6
        ex_sampled
      = (Inr \<lparr>TechnicalSophistication = 7, MessageAppropriateness = 0\<rparr>, [EvGenerateContent ''tools''])\<close>
proof -
  let ?cs = "ex_sampled"
  have n: "extract_json ''The commits look fine.'' = None" by code_simp
  have rp: "response_text (generateContent ex_env_prose ''tools'' 6 ?cs) = Inr ''The commits look fine.''"
    by (simp add: ex_env_prose_def ex_env_def ex_candidates_def response_text_def)
  have ro: "response_text (generateContent ex_env_one_field ''tools'' 6 ?cs) = Inr ex_answer_one_field"
    by (simp add: ex_env_one_field_def ex_env_def ex_candidates_def response_text_def)
  have "(6::int) \<noteq> 0" and ne: "?cs \<noteq> []" by (simp_all add: ex_sampled_def)
  from evaluation_parse_outcomes[of 6 ?cs "generateContent ex_env_prose" "''tools''"
      "''The commits look fine.''", OF this rp] n
  have p: "AnalyzeCommitsWithGemini (generateContent ex_env_prose) ''tools'' 6 ?cs
      = (Inl NoJSONFound, [EvGenerateContent ''tools''])"
    by blast
  from evaluation_parse_outcomes[of 6 ?cs "generateContent ex_env_one_field" "''tools''"
      ex_answer_one_field ex_answer_one_field _ "[(''technical_sophistication'', JNumber ''7'')]"
      "\<lparr>TechnicalSophistication = 7, MessageAppropriateness = 0\<rparr>",
      OF \<open>(6::int) \<noteq> 0\<close> ne ro] ex_one_field_parsed
  have q: "AnalyzeCommitsWithGemini (generateContent ex_env_one_field) ''tools'' 6 ?cs
      = (Inr \<lparr>TechnicalSophistication = 7, MessageAppropriateness = 0\<rparr>, [EvGenerateContent ''tools''])"
    by blast
  show ?thesis using n ne p q ex_one_field_parsed by simp
qed

subsection \<open>Scores outside the range\<close>

lemma spec_overall_above: "spec_overall 1000 20 20 = 18"
  by (simp add: spec_overall_def f64_add_def f64_mul_def f64_div_def f64_eval)

lemma spec_overall_below: "spec_overall 1000 (- 10) (- 10) = - 6"
  by (simp add: spec_overall_def f64_add_def f64_mul_def f64_div_def f64_eval)

lemma spec_overall_negative: "spec_overall 6 20 (- 30) < 0"
  by (simp add: spec_overall_def f64_add_def f64_mul_def f64_div_def f64_eval)

lemma overall_score_above:
  "overall_score 1000 \<lparr>TechnicalSophistication = 20, MessageAppropriateness = 20\<rparr> = 18"
  using overall_score_spec[of 1000 20 20] spec_overall_above by simp

lemma overall_score_below:
  "overall_score 1000 \<lparr>TechnicalSophistication = - 10, MessageAppropriateness = - 10\<rparr> = - 6"
  using overall_score_spec[of 1000 "- 10" "- 10"] spec_overall_below by simp

lemma ex_out_of_range_parsed:
  "parse_gemini_response ex_answer_out_of_range
     = Inr \<lparr>TechnicalSophistication = 20, MessageAppropriateness = - 30\<rparr>"
  by code_simp

text \<open>
  Claim C10. The parsed scores are not validated: for every evaluation that succeeds
  with scores \<open>t\<close> and \<open>m\<close>, whatever integers they are, the result records \<open>t\<close>
  and \<open>m\<close> unchanged and the overall score computed from them. Scores outside
  \<open>[0, 10]\<close> parse successfully, and the overall score is then not bounded by 0 and
  10: it is 18 for \<open>c = 1000\<close>, \<open>t = m = 20\<close> and \<open>-6\<close> for \<open>c = 1000\<close>,
  \<open>t = m = -10\<close>.
\<close>

theorem parsed_scores_unvalidated:
  assumes "GetRepositoryCommitAnalysisData fuel env org repo numRandomCommitsToAnalyze diffLinesLimit
             = Some (Inr (c, sampled), tr)"
    and "c \<noteq> 0"
    and "AnalyzeCommitsWithGemini (generateContent env) repo c sampled
           = (Inr \<lparr>TechnicalSophistication = t, MessageAppropriateness = m\<rparr>, tr')"
  shows "process_repo fuel env org repo =
           Some (\<lparr>Name = repo, CommitCount = c, TechnicalScore = t, MessageScore = m,
                  OverallScore = overall_score c \<lparr>TechnicalSophistication = t, MessageAppropriateness = m\<rparr>,
                  AnalyzedCommitsCount = int (length sampled), SampledCommits = sampled\<rparr>, tr @ tr')
         \<and> parse_gemini_response ex_answer_out_of_range
             = Inr \<lparr>TechnicalSophistication = 20, MessageAppropriateness = - 30\<rparr>
         \<and> overall_score 1000 \<lparr>TechnicalSophistication = 20, MessageAppropriateness = 20\<rparr> = 18
         \<and> overall_score 1000 \<lparr>TechnicalSophistication = - 10, MessageAppropriateness = - 10\<rparr> = - 6"
  using process_repo_scored[OF assms] ex_out_of_range_parsed overall_score_above overall_score_below
  by simp

lemma ex_overall_negative:
  "overall_score 6 \<lparr>TechnicalSophistication = 20, MessageAppropriateness = - 30\<rparr> < 0"
  using overall_score_spec[of 6 20 "- 30"] spec_overall_negative by simp

theorem parsed_scores_unvalidated_witness:
  "GetRepositoryCommitAnalysisData 3 ex_env_out_of_range ''acme'' ''tools'' numRandomCommitsToAnalyze diffLinesLimit
     = Some (Inr (6, ex_sampled),
             map EvGetCommit [''s2'', ''s3'', ''s4'', ''s5'', ''s6''])
   \<and> (6::int) \<noteq> 0
   \<and> AnalyzeCommitsWithGemini (generateContent ex_env_out_of_range) ''tools'' 6
        ex_sampled
      = (Inr \<lparr>TechnicalSophistication = 20, MessageAppropriateness = - 30\<rparr>, [EvGenerateContent ''tools''])
   \<and> map_option (\<lambda>(r, trace). (TechnicalScore r, MessageScore r))
        (process_repo 3 ex_env_out_of_range ''acme'' ''tools'') = Some (20, - 30)
   \<and> map_option (\<lambda>(r, trace). OverallScore r < 0)
        (process_repo 3 ex_env_out_of_range ''acme'' ''tools'') = Some True"
proof -
  have a: "GetRepositoryCommitAnalysisData 3 ex_env_out_of_range ''acme'' ''tools'' numRandomCommitsToAnalyze diffLinesLimit
     = Some (Inr (6, ex_sampled),
             map EvGetCommit [''s2'', ''s3'', ''s4'', ''s5'', ''s6''])"
    by code_simp
  have e: "AnalyzeCommitsWithGemini (generateContent ex_env_out_of_range) ''tools'' 6
        ex_sampled
      = (Inr \<lparr>TechnicalSophistication = 20, MessageAppropriateness = - 30\<rparr>, [EvGenerateContent ''tools''])"
    by code_simp
  have n: "(6::int) \<noteq> 0" by simp
  from parsed_scores_unvalidated[OF a n e] a e ex_overall_negative show ?thesis by simp
qed

subsection \<open>Failures of one repository\<close>

lemma process_repo_Name: "process_repo fuel env org repo = Some (r, tr) \<Longrightarrow> Name r = repo"
  by (auto simp: process_repo_def split: option.splits prod.splits sum.splits if_splits)

lemma process_repos_contained:
  "list_all (\<lambda>repo. repo = [] \<or> process_repo fuel (world repo) org repo \<noteq> None) repos \<Longrightarrow>
   \<exists>rs tr. process_repos fuel world org repos = Some (rs, tr)
           \<and> map Name rs = filter (\<lambda>repo. repo \<noteq> []) repos"
proof (induction repos)
  case Nil
  then show ?case by simp
next
  case (Cons repo repos)
  then obtain rs tr where rs: "process_repos fuel world org repos = Some (rs, tr)"
    and names: "map Name rs = filter (\<lambda>repo. repo \<noteq> []) repos"
    by auto
  show ?case
  proof (cases "repo = []")
    case True
    with rs names show ?thesis by simp
  next
    case False
    with Cons.prems obtain r tr0 where r: "process_repo fuel (world repo) org repo = Some (r, tr0)"
      by auto
    with rs names False process_repo_Name[OF r] show ?thesis by simp
  qed
qed

text \<open>
  Claim C6, at the input where the code departs from it. The organization is \<open>acme\<close>,
  the repository \<open>r409\<close>; the listing fails with status 500 while the commits are
  counted. \<^verbatim>\<open>countAllCommits\<close> returns the error, its text contains \<^verbatim>\<open>409\<close> (in
  the name of the repository), \<^verbatim>\<open>GetRepositoryCommitAnalysisData\<close> passes the error
  over, and \<^verbatim>\<open>main\<close> records the repository with commit count 0 instead of the
  sentinel \<open>-1\<close>.
\<close>

theorem counting_failure_recorded_as_empty:
  "countAllCommits 3 (count_pass ex_env_500) ''acme'' ''r409''
     = Some (Inl (count_error_text ''acme'' ''r409''
         ''GET https://api.github.com/repos/acme/r409/commits?per_page=100: 500 Internal Server Error []''))
   \<and> process_repo 3 ex_env_500 ''acme'' ''r409''
       = Some (\<lparr>Name = ''r409'', CommitCount = 0, TechnicalScore = 0, MessageScore = 0,
                OverallScore = 0, AnalyzedCommitsCount = 0, SampledCommits = []\<rparr>, [])"
proof -
  have c: "countAllCommits 3 (count_pass ex_env_500) ''acme'' ''r409''
     = Some (Inl (count_error_text ''acme'' ''r409''
         ''GET https://api.github.com/repos/acme/r409/commits?per_page=100: 500 Internal Server Error []''))"
    by code_simp
  have a: "GetRepositoryCommitAnalysisData 3 ex_env_500 ''acme'' ''r409'' numRandomCommitsToAnalyze diffLinesLimit
      = Some (Inr (0, []), [])"
    by code_simp
  show ?thesis using c process_repo_empty[OF a] by simp
qed

subsection \<open>The bound on the pages\<close>

text \<open>
  The bound only cuts the runs that need more pages: a loop that returns within a bound
  returns the same within every larger one.
\<close>

lemma count_loop_more_fuel:
  "count_loop f api ow rp page acc = Some x \<Longrightarrow> count_loop (f + k) api ow rp page acc = Some x"
proof (induction f arbitrary: page acc)
  case 0
  then show ?case by simp
next
  case (Suc f)
  show ?case
  proof (cases "api page")
    case (ListErr st e)
    with Suc.prems show ?thesis by simp
  next
    case (ListOk cs np)
    show ?thesis
    proof (cases "np = 0")
      case True
      with Suc.prems ListOk show ?thesis by (simp add: Let_def)
    next
      case False
      with Suc.prems ListOk have "count_loop f api ow rp np (acc + int (length cs)) = Some x"
        by (simp add: Let_def)
      from Suc.IH[OF this] False ListOk show ?thesis by (simp add: Let_def)
    qed
  qed
qed

lemma list_loop_more_fuel:
  "list_loop f api page shas tc num = Some x \<Longrightarrow> list_loop (f + k) api page shas tc num = Some x"
proof (induction f arbitrary: page shas)
  case 0
  then show ?case by simp
next
  case (Suc f)
  show ?case
  proof (cases "api page")
    case (ListErr st e)
    with Suc.prems show ?thesis by simp
  next
    case (ListOk cs np)
    let ?shas = "shas @ page_SHAs cs"
    show ?thesis
    proof (cases "np = 0 \<or> tc \<le> int (length ?shas) \<or> (500 < length ?shas \<and> num \<le> 10)")
      case True
      with Suc.prems ListOk show ?thesis by (auto simp: Let_def)
    next
      case False
      with Suc.prems ListOk have "list_loop f api np ?shas tc num = Some x"
        by (auto simp: Let_def)
      from Suc.IH[OF this] False ListOk show ?thesis by (auto simp: Let_def)
    qed
  qed
qed

lemma sample_commits_more_fuel:
  assumes "sample_commits f env tc num lm = Some x"
  shows "sample_commits (f + k) env tc num lm = Some x"
proof (cases "list_loop f (sha_pass env) 0 [] tc num")
  case None
  with assms show ?thesis by (simp add: sample_commits_def)
next
  case (Some res)
  from list_loop_more_fuel[OF this, of k] Some assms show ?thesis
    by (simp add: sample_commits_def)
qed

lemma analysis_more_fuel:
  assumes "GetRepositoryCommitAnalysisData f env ow rp num lm = Some x"
  shows "GetRepositoryCommitAnalysisData (f + k) env ow rp num lm = Some x"
proof (cases "countAllCommits f (count_pass env) ow rp")
  case None
  with assms show ?thesis by (simp add: GetRepositoryCommitAnalysisData_def)
next
  case (Some counted)
  then have c: "countAllCommits (f + k) (count_pass env) ow rp = Some counted"
    by (simp add: countAllCommits_def count_loop_more_fuel)
  show ?thesis
  proof (cases counted)
    case (Inl err)
    with Some c assms show ?thesis by (simp add: GetRepositoryCommitAnalysisData_def)
  next
    case (Inr n)
    show ?thesis
    proof (cases "n = 0")
      case True
      with Some c Inr assms show ?thesis by (simp add: GetRepositoryCommitAnalysisData_def)
    next
      case False
      with Some Inr assms have "sample_commits f env n num lm = Some x"
        by (simp add: GetRepositoryCommitAnalysisData_def)
      from sample_commits_more_fuel[OF this, of k] False c Inr show ?thesis
        by (simp add: GetRepositoryCommitAnalysisData_def)
    qed
  qed
qed

lemma process_repo_more_fuel:
  assumes "process_repo f env org repo = Some x"
  shows "process_repo (f + k) env org repo = Some x"
proof (cases "GetRepositoryCommitAnalysisData f env org repo numRandomCommitsToAnalyze diffLinesLimit")
  case None
  with assms show ?thesis by (simp add: process_repo_def)
next
  case (Some res)
  from analysis_more_fuel[OF this, of k] Some assms show ?thesis
    by (simp add: process_repo_def)
qed

lemma process_repos_more_fuel:
  "process_repos f world org repos = Some x \<Longrightarrow> process_repos (f + k) world org repos = Some x"
proof (induction repos arbitrary: x)
  case Nil
  then show ?case by simp
next
  case (Cons repo repos)
  show ?case
  proof (cases "repo = []")
    case True
    with Cons show ?thesis by simp
  next
    case False
    from Cons.prems False obtain r tr rs trs where
      r: "process_repo f (world repo) org repo = Some (r, tr)"
      and rs: "process_repos f world org repos = Some (rs, trs)"
      and x: "x = (r # rs, tr @ trs)"
      by (auto split: option.splits prod.splits)
    from process_repo_more_fuel[OF r, of k] Cons.IH[OF rs] False x show ?thesis by simp
  qed
qed


text \<open>The counting loop reaches the bound exactly when the listing has more pages than
  the bound; the SHA loop, which may stop earlier, at most then.\<close>

lemma count_loop_bound_reached:
  "count_loop f api ow rp page acc = None \<longleftrightarrow> nth_page api page f \<noteq> None"
proof (induction f arbitrary: page acc)
  case 0
  show ?case by simp
next
  case (Suc f)
  show ?case
  proof (cases "api page")
    case (ListErr st e)
    then show ?thesis by simp
  next
    case (ListOk cs np)
    with Suc.IH[of np "acc + int (length cs)"] show ?thesis by (simp add: Let_def)
  qed
qed

lemma list_loop_bound_reached:
  "list_loop f api page shas tc num = None \<Longrightarrow> nth_page api page f \<noteq> None"
proof (induction f arbitrary: page shas)
  case 0
  show ?case by simp
next
  case (Suc f)
  show ?case
  proof (cases "api page")
    case (ListErr st e)
    with Suc.prems show ?thesis by simp
  next
    case (ListOk cs np)
    with Suc.prems have "np \<noteq> 0" and "list_loop f api np (shas @ page_SHAs cs) tc num = None"
      by (auto simp: Let_def split: if_splits)
    with Suc.IH[of np "shas @ page_SHAs cs"] ListOk show ?thesis by simp
  qed
qed

end
